theory Spec2Isabelle
  imports Main "HOL-Library.Sublist" "HOL-Library.Multiset"
begin

section \<open>Python strings and builtins used by the program\<close>

text \<open>
  A Python \<open>str\<close> is a sequence of Unicode code points. A code point is modelled by its
  number, a string by the list of its code points, so that \<open>length\<close>, concatenation,
  substring search and whitespace splitting count what Python counts.
\<close>

type_synonym pystr = "nat list"

text \<open>\<open>str.isspace\<close> on one code point: the code points Python 3 treats as whitespace
  in \<open>str.split()\<close> and \<open>str.strip()\<close>.\<close>

definition isspace :: "nat \<Rightarrow> bool" where
  "isspace c = (c \<in> set [9, 10, 11, 12, 13, 28, 29, 30, 31, 32, 133, 160, 5760,
     8192, 8193, 8194, 8195, 8196, 8197, 8198, 8199, 8200, 8201, 8202,
     8232, 8233, 8239, 8287, 12288])"

text \<open>\<open>s.split()\<close> without arguments: the maximal runs of non-whitespace code points.\<close>

fun py_split_aux :: "pystr \<Rightarrow> pystr \<Rightarrow> pystr list" where
  "py_split_aux cur [] = (if cur = [] then [] else [cur])"
| "py_split_aux cur (c # cs) =
     (if isspace c then (if cur = [] then [] else [cur]) @ py_split_aux [] cs
      else py_split_aux (cur @ [c]) cs)"

definition py_split :: "pystr \<Rightarrow> pystr list" where
  "py_split s = py_split_aux [] s"

text \<open>\<open>s.strip()\<close>: whitespace removed at both ends.\<close>

definition py_strip :: "pystr \<Rightarrow> pystr" where
  "py_strip s = rev (dropWhile isspace (rev (dropWhile isspace s)))"

text \<open>\<open>t in d\<close> on strings is contiguous containment, \<^const>\<open>sublist\<close>.\<close>

abbreviation py_in :: "pystr \<Rightarrow> pystr \<Rightarrow> bool" where
  "py_in t d \<equiv> sublist t d"

text \<open>\<open>xs[:k]\<close> for a Python integer \<open>k\<close>: a negative bound counts from the end.\<close>

definition py_slice_to :: "'a list \<Rightarrow> int \<Rightarrow> 'a list" where
  "py_slice_to xs k =
     (if 0 \<le> k then take (nat k) xs else take (length xs - nat (- k)) xs)"

text \<open>\<open>xs.sort(key=f, reverse=True)\<close>: Python's sort is stable, and with
  \<open>reverse=True\<close> elements with equal keys keep their original order; CPython reverses
  the list, sorts it stably in ascending order and reverses it again.\<close>

definition py_sort_reverse :: "('a \<Rightarrow> nat) \<Rightarrow> 'a list \<Rightarrow> 'a list" where
  "py_sort_reverse f xs = rev (sort_key f (rev xs))"

text \<open>\<open>sep.join(xs)\<close>.\<close>

fun py_join :: "pystr \<Rightarrow> pystr list \<Rightarrow> pystr" where
  "py_join sep [] = []"
| "py_join sep [x] = x"
| "py_join sep (x # y # ys) = x @ sep @ py_join sep (y # ys)"

text \<open>\<open>str(n)\<close> for a non-negative integer: its decimal digits.\<close>

fun str_of_nat :: "nat \<Rightarrow> pystr" where
  "str_of_nat n = (if n < 10 then [48 + n] else str_of_nat (n div 10) @ [48 + n mod 10])"

declare str_of_nat.simps [simp del]

text \<open>An ASCII literal of the source, as code points.\<close>

definition asc :: "string \<Rightarrow> pystr" where
  "asc s = map of_char s"

text \<open>\<open>s.lower()\<close>, on the ASCII capitals. The program only compares the result with the
  three ASCII extensions below, and no other code point lowercases to one of their
  letters, so the other rules of \<open>str.lower\<close> do not change that comparison.\<close>

definition py_lower :: "pystr \<Rightarrow> pystr" where
  "py_lower s = map (\<lambda>c. if 65 \<le> c \<and> c \<le> 90 then c + 32 else c) s"

text \<open>\<open>os.path.join(a, b)\<close> on POSIX (code point 47 is the slash).\<close>

definition path_join :: "pystr \<Rightarrow> pystr \<Rightarrow> pystr" where
  "path_join a b =
     (if b \<noteq> [] \<and> hd b = 47 then b
      else if a = [] \<or> last a = 47 then a @ b
      else a @ [47] @ b)"

text \<open>The second component of \<open>os.path.splitext(p)\<close>: the part of the last path
  component from its last dot (code point 46) on, unless only dots come before it.\<close>

definition splitext_ext :: "pystr \<Rightarrow> pystr" where
  "splitext_ext p =
     (let base = rev (takeWhile (\<lambda>c. c \<noteq> 47) (rev p));
          ext = rev (takeWhile (\<lambda>c. c \<noteq> 46) (rev base));
          stem = rev (drop 1 (dropWhile (\<lambda>c. c \<noteq> 46) (rev base)))
      in if 46 \<in> set base \<and> (\<exists>c \<in> set stem. c \<noteq> 46) then 46 # ext else [])"

text \<open>A raised \<open>Exception\<close>, with what \<open>repr(e)\<close> and \<open>str(e)\<close> give.\<close>

datatype exn = Exception (exn_repr: pystr) (exn_str: pystr)

section \<open>The fixed texts of the program\<close>

text \<open>The string literals of the source, as code points.\<close>

text \<open>The label in front of the scenario (app.py line 59).\<close>

definition scenario_prefix :: pystr where
  "scenario_prefix =
    [22330, 26223, 25551, 36848, 65306]"

text \<open>The whole first line when the scenario is empty (app.py line 59).\<close>

definition scenario_placeholder :: pystr where
  "scenario_placeholder =
    [22330, 26223, 25551, 36848, 65306, 26080, 65288, 21069, 31471, 26410, 25552, 20379,
     65289]"

text \<open>The turn entry of app.py line 75 is \<open>entry_open\<close>, the round number, \<open>entry_mid\<close>, the speaker, \<open>entry_close\<close>, the reply: two line feeds, an opening bracket and an ordinal marker.\<close>

definition entry_open :: pystr where
  "entry_open =
    [10, 10, 91, 31532]"

text \<open>The round counter word and a space.\<close>

definition entry_mid :: pystr where
  "entry_mid =
    [36718, 32]"

text \<open>A space, the word for a statement, a closing bracket, a colon and a space.\<close>

definition entry_close :: pystr where
  "entry_close =
    [32, 21457, 35328, 93, 58, 32]"

text \<open>The failure notice of \<open>call_llm\<close> (utils.py line 31) opens with a bracket, the ASCII letters LLM, a space and the words for a failed call, and a full-width colon.\<close>

definition llm_err_open :: pystr where
  "llm_err_open =
    [91, 76, 76, 77, 32, 35843, 29992, 20986, 38169, 65306]"

text \<open>The closing bracket of the failure notice.\<close>

definition llm_err_close :: pystr where
  "llm_err_close =
    [93]"

text \<open>The provenance label of a loaded file (utils.py line 61): an opening lenticular bracket, the word for file and a full-width colon.\<close>

definition file_open :: pystr where
  "file_open =
    [12304, 25991, 20214, 65306]"

text \<open>A closing lenticular bracket and a line feed.\<close>

definition file_close :: pystr where
  "file_close =
    [12305, 10]"

text \<open>The notice for a file that could not be read (utils.py line 63).\<close>

definition readfail_open :: pystr where
  "readfail_open =
    [12304, 35835, 21462, 22833, 36133, 65306]"

text \<open>The closing lenticular bracket of the notice.\<close>

definition readfail_close :: pystr where
  "readfail_close =
    [12305]"

text \<open>The separator between retrieved documents (agent.py line 77).\<close>

definition kb_sep :: pystr where
  "kb_sep =
    [10, 10, 45, 45, 45, 45, 45, 45, 10, 10]"

text \<open>The heading of the retrieved material (agent.py line 78).\<close>

definition kb_header :: pystr where
  "kb_header =
    [12304, 20197, 19979, 26159, 19982, 20320, 26041, 30456, 20851, 30340, 26816, 32034,
     21040, 30340, 32972, 26223, 26448, 26009, 29255, 27573, 65288, 20165, 20379, 20869,
     37096, 25512, 29702, 65292, 19981, 35201, 30452, 25509, 29031, 25220, 21407, 25991,
     65289, 65306, 12305, 10]"

text \<open>The heading of the request block (agent.py line 96).\<close>

definition user_open :: pystr where
  "user_open =
    [12304, 24403, 21069, 22810, 26041, 21338, 24328, 23616, 21183, 19982, 20854, 20182,
     20027, 20307, 36817, 26399, 21160, 24577, 12305, 10]"

text \<open>The instruction closing the request block (agent.py lines 99 to 102).\<close>

definition user_instr :: pystr where
  "user_instr =
    [35831, 22522, 20110, 19978, 36848, 23616, 21183, 20197, 21450, 20320, 25152, 20195,
     34920, 20027, 20307, 30340, 21033, 30410, 21644, 20559, 22909, 65292, 32473, 20986,
     20320, 26041, 22312, 26412, 36718, 30340, 31574, 30053, 31435, 22330, 19982, 34892,
     21160, 24314, 35758, 12290]"

text \<open>Fixed text of the system prompt (agent.py lines 45 to 63), up to the first name.\<close>

definition sys_seg0 :: pystr where
  "sys_seg0 =
    [10, 20320, 26159, 19968, 21517, 25112, 30053, 21338, 24328, 25512, 28436, 31995,
     32479, 20013, 30340, 26234, 33021, 20307, 65292, 20195, 34920, 30340, 23545, 35937,
     20026, 65306]"

text \<open>Fixed text of the system prompt (agent.py lines 45 to 63), after the field \<open>name\<close>.\<close>

definition sys_seg1 :: pystr where
  "sys_seg1 =
    [65288, 20195, 21495, 65306]"

text \<open>Fixed text of the system prompt (agent.py lines 45 to 63), after the field \<open>short_name\<close>.\<close>

definition sys_seg2 :: pystr where
  "sys_seg2 =
    [65289, 12290, 10, 10, 12304, 36523, 20221, 19982, 35282, 33394, 12305, 10]"

text \<open>Fixed text of the system prompt (agent.py lines 45 to 63), after the field \<open>role_description\<close>.\<close>

definition sys_seg3 :: pystr where
  "sys_seg3 =
    [10, 10, 12304, 25112, 30053, 20559, 22909, 19982, 30446, 26631, 12305, 10]"

text \<open>Fixed text of the system prompt (agent.py lines 45 to 63), after the field \<open>strategic_preferences\<close>.\<close>

definition sys_seg4 :: pystr where
  "sys_seg4 =
    [10, 10, 12304, 20869, 32852, 32972, 26223, 30693, 35782, 65288, 20165, 20379, 25512,
     29702, 65292, 19981, 35201, 36880, 26465, 22797, 36848, 65289, 12305, 10]"

text \<open>Fixed text of the system prompt (agent.py lines 45 to 63), after the field \<open>knowledge\<close>.\<close>

definition sys_seg5 :: pystr where
  "sys_seg5 =
    [10, 10, 12304, 27880, 24847, 12305, 10, 45, 32, 22914, 26524, 37197, 32622, 20102,
     22806, 37096, 30693, 35782, 24211, 30446, 24405, 65292, 20320, 22312, 25512, 29702,
     26102, 20063, 20250, 30475, 21040, 39069, 22806, 26816, 32034, 21040, 30340, 29255,
     27573, 12290, 10, 45, 32, 20320, 35201, 20174, 8220]"

text \<open>Fixed text of the system prompt (agent.py lines 45 to 63), after the field \<open>name\<close>.\<close>

definition sys_seg6 :: pystr where
  "sys_seg6 =
    [8221, 30340, 31435, 22330, 36827, 34892, 24605, 32771, 21644, 34920, 24577, 65292,
     19981, 35201, 25198, 28436, 31532, 19977, 26041, 35780, 35770, 21592, 12290, 10, 45,
     32, 22238, 31572, 26102, 35831, 19987, 27880, 20110, 32473, 20986, 26412, 26041,
     22312, 24403, 21069, 23616, 21183, 19979, 30340, 31574, 30053, 31435, 22330, 19982,
     34892, 21160, 24314, 35758, 12290, 10, 45, 32, 29992, 31616, 27905, 20013, 25991,
     34920, 36798, 65292, 21487, 38468, 24102, 32, 49, 8211, 50, 32, 21477, 25512, 29702,
     35828, 26126, 65292, 20294, 19981, 35201, 38271, 31687, 35770, 25991, 24335, 20998,
     26512, 12290, 10, 45, 32, 19981, 35201, 26367, 20854, 20182, 20027, 20307, 21457,
     35328, 65292, 19981, 35201, 20889, 21095, 26412, 24335, 23545, 35805, 12290, 10, 32,
     32, 32, 32, 32, 32, 32, 32]"

section \<open>utils.py: the text-generation call and the directory loader\<close>

text \<open>
  The hosted text-generation service is outside the program. It is a parameter: given its
  own state and the messages (pairs of role and content), it returns the generated text
  or raises, and moves to a new state. The model name and the temperature are constants
  of every call. A failure of the call (network, authentication, a malformed response) is
  an \<open>Exception\<close>, which is what the handler of \<open>call_llm\<close> catches; a successful call
  returns the text of the first choice.
\<close>

type_synonym message = "pystr \<times> pystr"

type_synonym 's service = "'s \<Rightarrow> message list \<Rightarrow> (exn + pystr) \<times> 's"

definition call_llm :: "'s service \<Rightarrow> message list \<Rightarrow> 's \<Rightarrow> pystr \<times> 's" where
  "call_llm svc messages s =
     (case svc s messages of
        (Inr content, s') \<Rightarrow> (content, s')
      | (Inl e, s') \<Rightarrow> (llm_err_open @ exn_repr e @ llm_err_close, s'))"

text \<open>
  The file system, as the loader sees it: \<open>os.path.expanduser\<close>, \<open>os.path.isdir\<close>,
  \<open>os.walk\<close> (a finite list of triples: directory, its sub-directory names, its file
  names; it raises nothing) and opening and reading a file as UTF-8 with
  \<open>errors="ignore"\<close>, which gives the text or raises.
\<close>

record filesystem =
  expanduser :: "pystr \<Rightarrow> pystr"
  isdir :: "pystr \<Rightarrow> bool"
  walk :: "pystr \<Rightarrow> (pystr \<times> pystr list \<times> pystr list) list"
  read_text :: "pystr \<Rightarrow> exn + pystr"

definition exts :: "pystr list" where
  "exts = [asc ''.txt'', asc ''.md'', asc ''.log'']"

text \<open>The loop over the file names of one directory.\<close>

fun files_loop :: "filesystem \<Rightarrow> pystr \<Rightarrow> pystr list \<Rightarrow> pystr list" where
  "files_loop fs root [] = []"
| "files_loop fs root (fname # fnames) =
     (if py_lower (splitext_ext fname) \<notin> set exts then files_loop fs root fnames
      else
        let full_path = path_join root fname
        in (case read_text fs full_path of
              Inr raw \<Rightarrow>
                (let text = py_strip raw
                 in if text \<noteq> [] then [file_open @ fname @ file_close @ text] else [])
            | Inl e \<Rightarrow> [readfail_open @ full_path @ readfail_close @ exn_str e])
           @ files_loop fs root fnames)"

text \<open>The loop over the directories \<open>os.walk\<close> yields.\<close>

fun walk_loop :: "filesystem \<Rightarrow> (pystr \<times> pystr list \<times> pystr list) list \<Rightarrow> pystr list" where
  "walk_loop fs [] = []"
| "walk_loop fs ((root, dirs, files) # rest) = files_loop fs root files @ walk_loop fs rest"

definition load_text_files_from_folder :: "filesystem \<Rightarrow> pystr \<Rightarrow> pystr list" where
  "load_text_files_from_folder fs folder_path =
     (if folder_path = [] then []
      else
        let folder_path' = expanduser fs folder_path
        in if \<not> isdir fs folder_path' then []
           else walk_loop fs (walk fs folder_path'))"

section \<open>utils.py: keyword retrieval\<close>

text \<open>The inner loop of \<open>simple_keyword_retrieval\<close>: one point for each distinct query
  token that is non-empty and occurs in the document.\<close>

fun score_loop :: "pystr list \<Rightarrow> pystr \<Rightarrow> nat \<Rightarrow> nat" where
  "score_loop [] d score = score"
| "score_loop (t # ts) d score =
     (if t \<noteq> [] \<and> py_in t d then score_loop ts d (score + 1) else score_loop ts d score)"

text \<open>The outer loop: the documents with a positive score, paired with it, in document
  order.\<close>

fun scored_loop :: "pystr list \<Rightarrow> pystr list \<Rightarrow> (nat \<times> pystr) list" where
  "scored_loop q_tokens [] = []"
| "scored_loop q_tokens (d # ds) =
     (let score = score_loop q_tokens d 0
      in if score > 0 then (score, d) # scored_loop q_tokens ds
         else scored_loop q_tokens ds)"

text \<open>\<open>set(query.split())\<close> is kept as the list of the distinct tokens; the score, a
  count, does not depend on the order a set is iterated in.\<close>

definition simple_keyword_retrieval :: "pystr list \<Rightarrow> pystr \<Rightarrow> int \<Rightarrow> pystr list" where
  "simple_keyword_retrieval docs query top_k =
     (if docs = [] \<or> query = [] then []
      else
        let q_tokens = remdups (py_split query);
            scored = scored_loop q_tokens docs
        in if scored = [] then py_slice_to docs top_k
           else map snd (py_slice_to (py_sort_reverse fst scored) top_k))"

section \<open>agent.py\<close>

record AgentConfig =
  name :: pystr
  short_name :: pystr
  role_description :: pystr
  strategic_preferences :: pystr
  knowledge :: pystr
  knowledge_mode :: pystr
  knowledge_folder :: pystr

text \<open>An agent object: its configuration, its own history of messages and its documents.
  Every agent is a fresh object with a fresh history list, so agents share nothing and
  a list of agent values models the list of objects.\<close>

record Agent =
  config :: AgentConfig
  history :: "message list"
  docs :: "pystr list"

text \<open>\<open>Agent.__init__\<close>.\<close>

definition Agent_init :: "filesystem \<Rightarrow> AgentConfig \<Rightarrow> Agent" where
  "Agent_init fs cfg =
     (let docs0 = (if knowledge cfg \<noteq> [] then [knowledge cfg] else []);
          docs1 = (if knowledge_mode cfg = asc ''folder'' \<and> knowledge_folder cfg \<noteq> []
                   then docs0 @ load_text_files_from_folder fs (knowledge_folder cfg)
                   else docs0)
      in \<lparr>config = cfg, history = [], docs = docs1\<rparr>)"

definition build_system_prompt :: "Agent \<Rightarrow> pystr" where
  "build_system_prompt a =
     py_strip
       (sys_seg0 @ name (config a) @ sys_seg1 @ short_name (config a) @ sys_seg2
        @ role_description (config a) @ sys_seg3 @ strategic_preferences (config a)
        @ sys_seg4 @ knowledge (config a) @ sys_seg5 @ name (config a) @ sys_seg6)"

definition retrieve_for_round :: "Agent \<Rightarrow> pystr \<Rightarrow> pystr" where
  "retrieve_for_round a global_context =
     (if docs a = [] then []
      else
        let top_docs = simple_keyword_retrieval (docs a) global_context 3
        in if top_docs = [] then []
           else kb_header @ py_join kb_sep top_docs)"

text \<open>\<open>Agent.act\<close>: the reply, the agent after the call and the service after the call.\<close>

definition act :: "'s service \<Rightarrow> Agent \<Rightarrow> pystr \<Rightarrow> 's \<Rightarrow> pystr \<times> Agent \<times> 's" where
  "act svc a global_context s =
     (let messages0 = [(asc ''system'', build_system_prompt a)] @ history a;
          kb_text = retrieve_for_round a global_context;
          user_content0 = user_open @ global_context @ [10, 10];
          user_content1 = (if kb_text \<noteq> [] then user_content0 @ kb_text @ [10, 10]
                           else user_content0);
          user_content = user_content1 @ user_instr;
          messages = messages0 @ [(asc ''user'', user_content)];
          (reply, s') = call_llm svc messages s
      in (reply, a\<lparr>history := history a @ [(asc ''assistant'', reply)]\<rparr>, s'))"

section \<open>app.py\<close>

text \<open>An entry of the request's agent list is a JSON object with text values: a dictionary
  from keys to strings. \<open>a.get(k, d)\<close> is \<open>dict_get a k d\<close>.\<close>

type_synonym pydict = "pystr \<rightharpoonup> pystr"

definition dict_get :: "pydict \<Rightarrow> pystr \<Rightarrow> pystr \<Rightarrow> pystr" where
  "dict_get a k d = (case a k of None \<Rightarrow> d | Some v \<Rightarrow> v)"

fun build_agents_from_request :: "filesystem \<Rightarrow> pydict list \<Rightarrow> Agent list" where
  "build_agents_from_request fs [] = []"
| "build_agents_from_request fs (a # agents_data) =
     (let name' = py_strip (dict_get a (asc ''name'') [])
      in if name' = [] then build_agents_from_request fs agents_data
         else
           let cfg = \<lparr>name = name',
                      short_name = name',
                      role_description = dict_get a (asc ''role'') [],
                      strategic_preferences = dict_get a (asc ''strategic_preferences'') [],
                      knowledge = dict_get a (asc ''knowledge'') [],
                      knowledge_mode = dict_get a (asc ''knowledge_mode'') (asc ''inline''),
                      knowledge_folder = dict_get a (asc ''knowledge_folder'') []\<rparr>
           in Agent_init fs cfg # build_agents_from_request fs agents_data)"

text \<open>A message record of the transcript, and a line of the streamed response. The JSON
  text of a line is the transport's; the model keeps what the line carries.\<close>

record msg =
  turn :: nat
  speaker :: pystr
  content :: pystr

datatype chunk = Message msg | Done nat | Error pystr

text \<open>What \<open>generate\<close> holds while it runs: the agent objects, the shared context, the log,
  the lines emitted so far, and the state of the service.\<close>

record 's run_state =
  agents :: "Agent list"
  global_context :: pystr
  messages_log :: "msg list"
  emitted :: "chunk list"
  service_state :: 's

text \<open>The formatted entry appended to the context after a turn (app.py line 75).\<close>

definition turn_entry :: "nat \<Rightarrow> pystr \<Rightarrow> pystr \<Rightarrow> pystr" where
  "turn_entry turn_idx speaker_name reply =
     entry_open @ str_of_nat turn_idx @ entry_mid @ speaker_name @ entry_close @ reply"

text \<open>The body of the inner loop, for the agent at position \<open>i\<close> of the list.\<close>

definition turn_step :: "'s service \<Rightarrow> nat \<Rightarrow> nat \<Rightarrow> 's run_state \<Rightarrow> 's run_state" where
  "turn_step svc turn_idx i st =
     (let agent = agents st ! i;
          (reply, agent', s') = act svc agent (global_context st) (service_state st);
          m = \<lparr>turn = turn_idx, speaker = name (config agent'), content = reply\<rparr>
      in st\<lparr>agents := (agents st)[i := agent'],
            messages_log := messages_log st @ [m],
            global_context := global_context st @ turn_entry turn_idx (name (config agent')) reply,
            emitted := emitted st @ [Message m],
            service_state := s'\<rparr>)"

text \<open>\<open>for agent in agents\<close>: the positions of the list in order.\<close>

definition agents_loop :: "'s service \<Rightarrow> nat \<Rightarrow> 's run_state \<Rightarrow> 's run_state" where
  "agents_loop svc turn_idx st = fold (turn_step svc turn_idx) [0..<length (agents st)] st"

text \<open>\<open>for t in range(turns)\<close>, with \<open>turn_idx = t + 1\<close>; the range of a number that is
  not positive is empty.\<close>

definition rounds_loop :: "'s service \<Rightarrow> int \<Rightarrow> 's run_state \<Rightarrow> 's run_state" where
  "rounds_loop svc turns st = fold (\<lambda>t. agents_loop svc (t + 1)) [0..<nat turns] st"

definition scenario_line :: "pystr \<Rightarrow> pystr" where
  "scenario_line scenario =
     (if scenario \<noteq> [] then scenario_prefix @ scenario else scenario_placeholder)"

text \<open>The variables of \<open>generate\<close> before its loop (app.py lines 57 to 59).\<close>

definition init_state :: "pystr \<Rightarrow> Agent list \<Rightarrow> 's \<Rightarrow> 's run_state" where
  "init_state scenario agents0 s0 =
     \<lparr>agents = agents0, global_context = scenario_line scenario,
      messages_log = [], emitted = [], service_state = s0\<rparr>"

text \<open>
  The generator \<open>generate\<close>, run to its end. No statement of the loop body raises: the
  service's exceptions are turned into replies by \<^const>\<open>call_llm\<close>, so the handler that
  would emit an \<^const>\<open>Error\<close> line is not entered and the last line is the done marker.
\<close>

definition generate :: "'s service \<Rightarrow> pystr \<Rightarrow> int \<Rightarrow> Agent list \<Rightarrow> 's \<Rightarrow> 's run_state" where
  "generate svc scenario turns agents0 s0 =
     (let st = rounds_loop svc turns (init_state scenario agents0 s0)
      in st\<lparr>emitted := emitted st @ [Done (length (messages_log st))]\<rparr>)"

text \<open>The decoded request body: a missing key is \<open>None\<close>.\<close>

record request =
  req_scenario :: "pystr option"
  req_turns :: "int option"
  req_agents :: "pydict list option"

text \<open>The error response of \<open>simulate_stream\<close>: the status code and the message.\<close>

datatype http_error = HttpError nat pystr

definition simulate_stream ::
  "filesystem \<Rightarrow> 's service \<Rightarrow> request \<Rightarrow> 's \<Rightarrow> http_error + 's run_state" where
  "simulate_stream fs svc data s0 =
     (let scenario = py_strip (case req_scenario data of None \<Rightarrow> [] | Some v \<Rightarrow> v);
          turns = (case req_turns data of None \<Rightarrow> 3 | Some v \<Rightarrow> v);
          agents_data = (case req_agents data of None \<Rightarrow> [] | Some v \<Rightarrow> v);
          agents0 = build_agents_from_request fs agents_data
      in if agents0 = [] then Inl (HttpError 400 (asc ''No valid agents provided.''))
         else Inr (generate svc scenario turns agents0 s0))"

section \<open>Test doubles and the vocabulary of the properties\<close>

text \<open>A text-generation stub that echoes its last input, one that always fails, and a
  file system with no directory.\<close>

definition echo_stub :: "unit service" where
  "echo_stub s messages = (Inr (snd (last messages)), s)"

definition failing_stub :: "unit service" where
  "failing_stub s messages = (Inl (Exception (asc ''ConnectionError()'') []), s)"

definition empty_fs :: filesystem where
  "empty_fs = \<lparr>expanduser = (\<lambda>p. p), isdir = (\<lambda>p. False), walk = (\<lambda>p. []),
                read_text = (\<lambda>p. Inr [])\<rparr>"

text \<open>The turns of a run in chronological order: round by round, and inside a round the
  positions of the agent list in order. A turn is the pair of its round number and the
  position of its agent.\<close>

definition schedule :: "nat \<Rightarrow> int \<Rightarrow> (nat \<times> nat) list" where
  "schedule n turns = concat (map (\<lambda>t. map (\<lambda>i. (t + 1, i)) [0..<n]) [0..<nat turns])"

text \<open>The loop body run over a list of turns.\<close>

definition run_steps :: "'s service \<Rightarrow> (nat \<times> nat) list \<Rightarrow> 's run_state \<Rightarrow> 's run_state" where
  "run_steps svc sched st = fold (\<lambda>(turn_idx, i). turn_step svc turn_idx i) sched st"

text \<open>The context rebuilt from a scenario and a list of message records.\<close>

definition entry_of_msg :: "msg \<Rightarrow> pystr" where
  "entry_of_msg m = turn_entry (turn m) (speaker m) (content m)"

definition context_of :: "pystr \<Rightarrow> msg list \<Rightarrow> pystr" where
  "context_of scenario msgs = scenario_line scenario @ concat (map entry_of_msg msgs)"

text \<open>The reply of the turn the loop body takes in a state, for the agent at position
  \<open>i\<close>; the record of that turn; and the records of a list of turns.\<close>

definition step_reply :: "'s service \<Rightarrow> nat \<Rightarrow> 's run_state \<Rightarrow> pystr" where
  "step_reply svc i st = fst (act svc (agents st ! i) (global_context st) (service_state st))"

definition step_msg :: "'s service \<Rightarrow> nat \<Rightarrow> nat \<Rightarrow> 's run_state \<Rightarrow> msg" where
  "step_msg svc turn_idx i st =
     \<lparr>turn = turn_idx, speaker = name (config (agents st ! i)), content = step_reply svc i st\<rparr>"

fun steps_msgs :: "'s service \<Rightarrow> (nat \<times> nat) list \<Rightarrow> 's run_state \<Rightarrow> msg list" where
  "steps_msgs svc [] st = []"
| "steps_msgs svc ((turn_idx, i) # sched) st =
     step_msg svc turn_idx i st # steps_msgs svc sched (turn_step svc turn_idx i st)"

text \<open>A configuration with a name and nothing else, as \<open>build_agents_from_request\<close>
  makes it from an entry that has only a name, and its agent.\<close>

definition trivial_config :: "pystr \<Rightarrow> AgentConfig" where
  "trivial_config n =
     \<lparr>name = n, short_name = n, role_description = [], strategic_preferences = [],
      knowledge = [], knowledge_mode = asc ''inline'', knowledge_folder = []\<rparr>"

definition trivial_agent :: "pystr \<Rightarrow> Agent" where
  "trivial_agent n = Agent_init empty_fs (trivial_config n)"

text \<open>A sequence of calls of \<open>act\<close> on one agent, each with the context and the service
  state of its moment (whatever happened between the calls), and the replies returned.\<close>

fun act_many :: "'s service \<Rightarrow> Agent \<Rightarrow> (pystr \<times> 's) list \<Rightarrow> pystr list \<times> Agent" where
  "act_many svc a [] = ([], a)"
| "act_many svc a ((ctx, s) # calls) =
     (let (reply, a', s') = act svc a ctx s;
          (replies, a'') = act_many svc a' calls
      in (reply # replies, a''))"

text \<open>The replies in a list of records that belong to the agent at position \<open>j\<close>, the
  records being those of the given list of turns.\<close>

definition replies_of :: "nat \<Rightarrow> (nat \<times> nat) list \<Rightarrow> msg list \<Rightarrow> pystr list" where
  "replies_of j sched msgs =
     map (\<lambda>(m, k, i). content m) (filter (\<lambda>(m, k, i). i = j) (zip msgs sched))"

text \<open>The number of distinct tokens of a query that occur in a document.\<close>

definition match_count :: "pystr \<Rightarrow> pystr \<Rightarrow> nat" where
  "match_count query d = card {t \<in> set (py_split query). py_in t d}"

text \<open>A file name with one of the recognized extensions; the documents one file gives;
  the documents a directory tree gives.\<close>

definition recognized :: "pystr \<Rightarrow> bool" where
  "recognized fname = (py_lower (splitext_ext fname) \<in> set exts)"

definition file_documents :: "filesystem \<Rightarrow> pystr \<Rightarrow> pystr \<Rightarrow> pystr list" where
  "file_documents fs root fname =
     (case read_text fs (path_join root fname) of
        Inl e \<Rightarrow> [readfail_open @ path_join root fname @ readfail_close @ exn_str e]
      | Inr raw \<Rightarrow>
          (if py_strip raw = [] then []
           else [file_open @ fname @ file_close @ py_strip raw]))"

definition folder_documents :: "filesystem \<Rightarrow> pystr \<Rightarrow> pystr list" where
  "folder_documents fs folder =
     concat (map (\<lambda>(root, dirs, files).
                    concat (map (file_documents fs root) (filter recognized files)))
               (walk fs folder))"

text \<open>A configuration in folder mode, and two file systems: one whose directory \<open>kb\<close>
  holds a single text file with only a line feed in it, one whose directory \<open>kb\<close> holds
  a readable text file, a Markdown file that cannot be read and a file of another kind.\<close>

definition folder_config :: "pystr \<Rightarrow> pystr \<Rightarrow> AgentConfig" where
  "folder_config inline folder =
     \<lparr>name = asc ''A'', short_name = asc ''A'', role_description = [],
      strategic_preferences = [], knowledge = inline, knowledge_mode = asc ''folder'',
      knowledge_folder = folder\<rparr>"

definition blank_file_fs :: filesystem where
  "blank_file_fs =
     \<lparr>expanduser = (\<lambda>p. p), isdir = (\<lambda>p. p = asc ''kb''),
      walk = (\<lambda>p. if p = asc ''kb'' then [(asc ''kb'', [], [asc ''a.txt''])] else []),
      read_text = (\<lambda>p. Inr [10])\<rparr>"

definition two_file_fs :: filesystem where
  "two_file_fs =
     \<lparr>expanduser = (\<lambda>p. p), isdir = (\<lambda>p. p = asc ''kb''),
      walk = (\<lambda>p. if p = asc ''kb''
                   then [(asc ''kb'', [], [asc ''a.txt'', asc ''b.MD'', asc ''c.bin''])]
                   else []),
      read_text = (\<lambda>p. if p = asc ''kb/a.txt'' then Inr (asc ''hi '')
                        else Inl (Exception (asc ''PermissionError()'') (asc ''denied'')))\<rparr>"

section \<open>Basic facts about the operations\<close>

lemma act_agent:
  "act svc a ctx s = (r, a', s') \<Longrightarrow> a' = a\<lparr>history := history a @ [(asc ''assistant'', r)]\<rparr>"
  by (auto simp: act_def Let_def split: prod.splits)

lemma build_agents_eq_Nil:
  "build_agents_from_request fs agents_data = [] \<longleftrightarrow>
     (\<forall>a \<in> set agents_data. py_strip (dict_get a (asc ''name'') []) = [])"
  by (induction agents_data) (auto simp: Let_def)

lemma rounds_loop_nonpos: "turns \<le> 0 \<Longrightarrow> rounds_loop svc turns st = st"
  by (simp add: rounds_loop_def)

lemma act_snd:
  "fst (snd (act svc a ctx s)) = a\<lparr>history := history a @ [(asc ''assistant'', fst (act svc a ctx s))]\<rparr>"
  by (cases "act svc a ctx s") (auto dest: act_agent)

lemma turn_step_unfold:
  "turn_step svc k i st =
     st\<lparr>agents := (agents st)[i := (agents st ! i)\<lparr>history := history (agents st ! i)
             @ [(asc ''assistant'', step_reply svc i st)]\<rparr>],
        messages_log := messages_log st @ [step_msg svc k i st],
        global_context := global_context st @ entry_of_msg (step_msg svc k i st),
        emitted := emitted st @ [Message (step_msg svc k i st)],
        service_state := snd (snd (act svc (agents st ! i) (global_context st) (service_state st)))\<rparr>"
proof -
  obtain r a' s' where e: "act svc (agents st ! i) (global_context st) (service_state st) = (r, a', s')"
    by (cases "act svc (agents st ! i) (global_context st) (service_state st)") auto
  from act_agent [OF e]
  have a': "a' = (agents st ! i)\<lparr>history := history (agents st ! i) @ [(asc ''assistant'', r)]\<rparr>" .
  show ?thesis
    by (simp add: turn_step_def step_msg_def step_reply_def entry_of_msg_def e a' Let_def)
qed

lemma turn_step_agents:
  "agents (turn_step svc k i st) =
     (agents st)[i := (agents st ! i)\<lparr>history := history (agents st ! i)
        @ [(asc ''assistant'', step_reply svc i st)]\<rparr>]"
  by (simp add: turn_step_unfold)

lemma turn_step_messages_log:
  "messages_log (turn_step svc k i st) = messages_log st @ [step_msg svc k i st]"
  by (simp add: turn_step_unfold)

lemma turn_step_emitted:
  "emitted (turn_step svc k i st) = emitted st @ [Message (step_msg svc k i st)]"
  by (simp add: turn_step_unfold)

lemma turn_step_global_context:
  "global_context (turn_step svc k i st) = global_context st @ entry_of_msg (step_msg svc k i st)"
  by (simp add: turn_step_unfold)

lemma turn_step_length_agents [simp]:
  "length (agents (turn_step svc k i st)) = length (agents st)"
  by (simp add: turn_step_agents)

lemma turn_step_configs [simp]:
  "map config (agents (turn_step svc k i st)) = map config (agents st)"
  by (cases "i < length (agents st)")
     (auto simp: turn_step_agents list_eq_iff_nth_eq nth_list_update)

lemma turn_step_docs [simp]:
  "map docs (agents (turn_step svc k i st)) = map docs (agents st)"
  by (cases "i < length (agents st)")
     (auto simp: turn_step_agents list_eq_iff_nth_eq nth_list_update)

lemma run_steps_Nil [simp]: "run_steps svc [] st = st"
  by (simp add: run_steps_def)

lemma run_steps_Cons [simp]:
  "run_steps svc ((k, i) # sched) st = run_steps svc sched (turn_step svc k i st)"
  by (simp add: run_steps_def)

lemma run_steps_append:
  "run_steps svc (xs @ ys) st = run_steps svc ys (run_steps svc xs st)"
  by (simp add: run_steps_def)

lemma run_steps_length_agents [simp]:
  "length (agents (run_steps svc sched st)) = length (agents st)"
  by (induction sched arbitrary: st) auto

lemma run_steps_configs [simp]:
  "map config (agents (run_steps svc sched st)) = map config (agents st)"
  by (induction sched arbitrary: st) auto

lemma run_steps_docs [simp]:
  "map docs (agents (run_steps svc sched st)) = map docs (agents st)"
  by (induction sched arbitrary: st) auto

lemma run_steps_messages_log:
  "messages_log (run_steps svc sched st) = messages_log st @ steps_msgs svc sched st"
  by (induction sched arbitrary: st) (auto simp: turn_step_messages_log)

lemma run_steps_emitted:
  "emitted (run_steps svc sched st) = emitted st @ map Message (steps_msgs svc sched st)"
  by (induction sched arbitrary: st) (auto simp: turn_step_emitted)

lemma run_steps_global_context:
  "global_context (run_steps svc sched st)
     = global_context st @ concat (map entry_of_msg (steps_msgs svc sched st))"
  by (induction sched arbitrary: st) (auto simp: turn_step_global_context)

lemma length_steps_msgs [simp]: "length (steps_msgs svc sched st) = length sched"
  by (induction sched arbitrary: st) auto

lemma steps_msgs_append:
  "steps_msgs svc (xs @ ys) st = steps_msgs svc xs st @ steps_msgs svc ys (run_steps svc xs st)"
  by (induction xs arbitrary: st) auto

lemma config_nth_turn_step [simp]:
  "config (agents (turn_step svc k i st) ! j) = config (agents st ! j)"
  by (cases "i < length (agents st)"; cases "i = j")
     (simp_all add: turn_step_agents list_update_beyond)

lemma steps_msgs_turn_speaker:
  "map (\<lambda>m. (speaker m, turn m)) (steps_msgs svc sched st)
     = map (\<lambda>(k, i). (name (config (agents st ! i)), k)) sched"
  by (induction sched arbitrary: st) (auto simp: step_msg_def)

lemma agents_loop_run_steps:
  "agents_loop svc k st = run_steps svc (map (\<lambda>i. (k, i)) [0..<length (agents st)]) st"
  by (simp add: agents_loop_def run_steps_def fold_map comp_def)

lemma rounds_fold_run_steps:
  "fold (\<lambda>t. agents_loop svc (t + 1)) ts st
     = run_steps svc (concat (map (\<lambda>t. map (\<lambda>i. (t + 1, i)) [0..<length (agents st)]) ts)) st"
  by (induction ts arbitrary: st) (simp_all add: run_steps_append agents_loop_run_steps)

lemma rounds_loop_run_steps:
  "rounds_loop svc turns st = run_steps svc (schedule (length (agents st)) turns) st"
  using rounds_fold_run_steps [of svc "[0..<nat turns]" st]
  by (simp add: rounds_loop_def schedule_def)

lemma length_schedule [simp]: "length (schedule n turns) = nat turns * n"
  by (simp add: schedule_def length_concat comp_def sum_list_triv)

lemma generate_run_steps:
  "generate svc scenario turns agents0 s0 =
     (let st = run_steps svc (schedule (length agents0) turns) (init_state scenario agents0 s0)
      in st\<lparr>emitted := emitted st @ [Done (length (messages_log st))]\<rparr>)"
  by (simp add: generate_def rounds_loop_run_steps init_state_def)

lemma generate_messages_log:
  "messages_log (generate svc scenario turns agents0 s0)
     = steps_msgs svc (schedule (length agents0) turns) (init_state scenario agents0 s0)"
  by (simp add: generate_run_steps Let_def run_steps_messages_log) (simp add: init_state_def)

lemma generate_global_context:
  "global_context (generate svc scenario turns agents0 s0)
     = context_of scenario (messages_log (generate svc scenario turns agents0 s0))"
  by (simp add: generate_messages_log context_of_def)
     (simp add: generate_run_steps Let_def run_steps_global_context init_state_def)

lemma generate_emitted:
  "emitted (generate svc scenario turns agents0 s0)
     = map Message (messages_log (generate svc scenario turns agents0 s0))
       @ [Done (nat turns * length agents0)]"
  by (simp add: generate_messages_log)
     (simp add: generate_run_steps Let_def run_steps_emitted run_steps_messages_log init_state_def)

lemma take_steps_msgs:
  "take k (steps_msgs svc sched st) = steps_msgs svc (take k sched) st"
proof -
  have "steps_msgs svc (take k sched @ drop k sched) st
      = steps_msgs svc (take k sched) st
        @ steps_msgs svc (drop k sched) (run_steps svc (take k sched) st)"
    by (rule steps_msgs_append)
  then have "take k (steps_msgs svc sched st)
      = take k (steps_msgs svc (take k sched) st
        @ steps_msgs svc (drop k sched) (run_steps svc (take k sched) st))"
    by simp
  also have "\<dots> = steps_msgs svc (take k sched) st"
    by (simp add: min_def)
  finally show ?thesis .
qed

lemma nth_steps_msgs:
  "k < length sched \<Longrightarrow>
     steps_msgs svc sched st ! k
       = step_msg svc (fst (sched ! k)) (snd (sched ! k)) (run_steps svc (take k sched) st)"
proof (induction sched arbitrary: k st)
  case Nil
  then show ?case by simp
next
  case (Cons x sched)
  obtain t i where x: "x = (t, i)" by (cases x)
  show ?case
  proof (cases k)
    case 0
    then show ?thesis by (simp add: x)
  next
    case (Suc k')
    with Cons.prems have "k' < length sched" by simp
    from Cons.IH [OF this] show ?thesis by (simp add: x Suc)
  qed
qed

lemma Agent_init_config [simp]: "config (Agent_init fs cfg) = cfg"
  by (simp add: Agent_init_def Let_def)

lemma Agent_init_history [simp]: "history (Agent_init fs cfg) = []"
  by (simp add: Agent_init_def Let_def)

lemma build_agents_names:
  "map (\<lambda>a. name (config a)) (build_agents_from_request fs agents_data)
     = filter (\<lambda>n. n \<noteq> []) (map (\<lambda>a. py_strip (dict_get a (asc ''name'') [])) agents_data)"
  by (induction agents_data) (simp_all add: Let_def)

lemma generate_speakers:
  "map (\<lambda>m. (speaker m, turn m)) (messages_log (generate svc scenario turns agents0 s0))
     = map (\<lambda>(k, i). (name (config (agents0 ! i)), k)) (schedule (length agents0) turns)"
  by (simp add: generate_messages_log steps_msgs_turn_speaker) (simp add: init_state_def)

lemma schedule_2_2: "schedule 2 2 = [(1, 0), (1, 1), (2, 0), (2, 1)]"
  by (simp add: schedule_def upt_rec)

lemma act_reply:
  "fst (act svc a ctx s)
     = fst (call_llm svc
         ([(asc ''system'', build_system_prompt a)] @ history a
          @ [(asc ''user'',
              (if retrieve_for_round a ctx \<noteq> []
               then user_open @ ctx @ [10, 10] @ retrieve_for_round a ctx @ [10, 10]
               else user_open @ ctx @ [10, 10]) @ user_instr)]) s)"
  by (simp add: act_def Let_def split: prod.splits)

lemma call_llm_failing:
  assumes "svc s messages = (Inl e, s')"
  shows "fst (call_llm svc messages s) = llm_err_open @ exn_repr e @ llm_err_close"
  using assms by (simp add: call_llm_def)

lemma steps_msgs_content:
  assumes "\<And>a ctx s. Q (fst (act svc a ctx s))"
  shows "\<forall>m \<in> set (steps_msgs svc sched st). Q (content m)"
  by (induction sched arbitrary: st) (auto simp: step_msg_def step_reply_def assms)

lemma act_reply_call: "\<exists>messages. fst (act svc a ctx s) = fst (call_llm svc messages s)"
  by (rule exI, rule act_reply)

lemma act_many_history:
  "act_many svc a calls = (replies, a') \<Longrightarrow>
     length replies = length calls
     \<and> a' = a\<lparr>history := history a @ map (Pair (asc ''assistant'')) replies\<rparr>"
proof (induction calls arbitrary: a replies a')
  case Nil
  then show ?case by simp
next
  case (Cons c calls)
  obtain ctx s where c: "c = (ctx, s)" by (cases c)
  obtain r a1 s1 where e: "act svc a ctx s = (r, a1, s1)"
    by (cases "act svc a ctx s") auto
  obtain rs a2 where m: "act_many svc a1 calls = (rs, a2)"
    by (cases "act_many svc a1 calls")
  from Cons.prems have res: "replies = r # rs" "a' = a2"
    by (simp_all add: c e m)
  from Cons.IH [OF m] act_agent [OF e] show ?case
    by (simp add: res)
qed

lemma replies_of_Nil [simp]: "replies_of j [] msgs = []"
  by (simp add: replies_of_def)

lemma replies_of_Cons [simp]:
  "replies_of j ((k, i) # sched) (m # msgs)
     = (if i = j then content m # replies_of j sched msgs else replies_of j sched msgs)"
  by (simp add: replies_of_def)

lemma history_nth_turn_step:
  "j < length (agents st) \<Longrightarrow>
     history (agents (turn_step svc k i st) ! j)
       = (if i = j then history (agents st ! j) @ [(asc ''assistant'', step_reply svc i st)]
          else history (agents st ! j))"
  by (simp add: turn_step_agents)

lemma run_steps_history:
  "j < length (agents st) \<Longrightarrow>
     history (agents (run_steps svc sched st) ! j)
       = history (agents st ! j)
         @ map (Pair (asc ''assistant'')) (replies_of j sched (steps_msgs svc sched st))"
proof (induction sched arbitrary: st)
  case Nil
  then show ?case by simp
next
  case (Cons x sched)
  obtain k i where x: "x = (k, i)" by (cases x)
  from Cons.prems have "j < length (agents (turn_step svc k i st))" by simp
  from Cons.IH [OF this] Cons.prems show ?case
    by (simp add: x history_nth_turn_step step_msg_def)
qed

lemma length_replies_of:
  "length msgs = length sched \<Longrightarrow>
     length (replies_of j sched msgs) = length (filter (\<lambda>(k, i). i = j) sched)"
proof (induction sched arbitrary: msgs)
  case Nil
  then show ?case by simp
next
  case (Cons x sched)
  obtain k i where x: "x = (k, i)" by (cases x)
  from Cons.prems obtain m ms where msgs: "msgs = m # ms" "length ms = length sched"
    by (cases msgs) auto
  from Cons.IH [OF msgs(2)] show ?case by (simp add: x msgs)
qed

lemma filter_upt_eq: "j < n \<Longrightarrow> filter (\<lambda>i. i = j) [0..<n] = [j]"
proof (induction n)
  case 0
  then show ?case by simp
next
  case (Suc n)
  show ?case
  proof (cases "j < n")
    case True
    with Suc.IH show ?thesis by simp
  next
    case False
    with Suc.prems have "j = n" by simp
    then have "filter (\<lambda>i. i = j) [0..<n] = []" by (auto simp: filter_empty_conv)
    with \<open>j = n\<close> show ?thesis by simp
  qed
qed

lemma schedule_turns_of:
  assumes "j < n"
  shows "length (filter (\<lambda>(k, i). i = j) (schedule n turns)) = nat turns"
proof -
  have one: "length (filter ((\<lambda>(k, i). i = j) \<circ> Pair t) [0..<n]) = Suc 0" for t :: nat
    using filter_upt_eq [OF assms] by (simp add: comp_def)
  have "length (filter (\<lambda>(k, i). i = j) (concat (map (\<lambda>t. map (\<lambda>i. (f t, i)) [0..<n]) ts)))
          = length ts" for ts :: "nat list" and f :: "nat \<Rightarrow> nat"
    by (induction ts) (simp_all add: one)
  from this [of "\<lambda>t. t + 1" "[0..<nat turns]"] show ?thesis
    by (simp add: schedule_def)
qed

lemma trivial_agent_history [simp]: "history (trivial_agent n) = []"
  by (simp add: trivial_agent_def)

lemma py_split_aux_nonempty: "[] \<notin> set (py_split_aux cur s)"
  by (induction s arbitrary: cur) auto

lemma py_split_nonempty: "t \<in> set (py_split s) \<Longrightarrow> t \<noteq> []"
  using py_split_aux_nonempty [of "[]" s] by (auto simp: py_split_def)

lemma score_loop_count:
  "score_loop ts d acc = acc + length (filter (\<lambda>t. t \<noteq> [] \<and> py_in t d) ts)"
  by (induction ts arbitrary: acc) auto

lemma score_loop_match_count:
  "score_loop (remdups (py_split query)) d 0 = match_count query d"
proof -
  have "length (filter (\<lambda>t. t \<noteq> [] \<and> py_in t d) (remdups (py_split query)))
          = card ({t. t \<noteq> [] \<and> py_in t d} \<inter> set (remdups (py_split query)))"
    by (rule distinct_length_filter) simp
  also have "{t. t \<noteq> [] \<and> py_in t d} \<inter> set (remdups (py_split query))
          = {t \<in> set (py_split query). py_in t d}"
    using py_split_nonempty [of _ query] by auto
  finally show ?thesis by (simp add: score_loop_count match_count_def)
qed

lemma match_count_pos:
  "0 < match_count query d \<longleftrightarrow> (\<exists>t \<in> set (py_split query). py_in t d)"
proof -
  have "finite {t \<in> set (py_split query). py_in t d}" by simp
  then show ?thesis
    unfolding match_count_def by (auto simp: card_gt_0_iff)
qed

lemma scored_loop_eq:
  "scored_loop q ds
     = map (\<lambda>d. (score_loop q d 0, d)) (filter (\<lambda>d. 0 < score_loop q d 0) ds)"
  by (induction ds) (simp_all add: Let_def)

lemma insort_key_map:
  "insort_key f (g x) (map g xs) = map g (insort_key (\<lambda>y. f (g y)) x xs)"
  by (induction xs) simp_all

lemma sort_key_map: "sort_key f (map g xs) = map g (sort_key (\<lambda>y. f (g y)) xs)"
  by (induction xs) (simp_all add: insort_key_map)

lemma py_sort_reverse_map:
  "py_sort_reverse f (map g xs) = map g (py_sort_reverse (\<lambda>y. f (g y)) xs)"
  by (simp add: py_sort_reverse_def rev_map sort_key_map)

lemma py_sort_reverse_mset: "mset (py_sort_reverse f xs) = mset xs"
  by (simp add: py_sort_reverse_def)

lemma py_sort_reverse_sorted: "sorted_wrt (\<lambda>a b. f b \<le> f a) (py_sort_reverse f xs)"
proof -
  have "sorted (map f (sort_key f (rev xs)))" by (rule sorted_sort_key)
  then show ?thesis
    by (simp add: py_sort_reverse_def sorted_wrt_rev sorted_map)
qed

lemma py_sort_reverse_stable:
  "filter (\<lambda>x. f x = c) (py_sort_reverse f xs) = filter (\<lambda>x. f x = c) xs"
proof -
  have "filter (\<lambda>x. f x = c) (py_sort_reverse f xs)
          = rev (filter (\<lambda>x. f x = c) (sort_key f (rev xs)))"
    by (simp add: py_sort_reverse_def rev_filter)
  also have "\<dots> = rev (filter (\<lambda>x. f x = c) (rev xs))"
    by (simp only: sort_key_stable)
  also have "\<dots> = filter (\<lambda>x. f x = c) xs"
    by (simp add: rev_filter)
  finally show ?thesis .
qed

lemma py_slice_to_nonneg: "0 \<le> k \<Longrightarrow> py_slice_to xs k = take (nat k) xs"
  by (simp add: py_slice_to_def)

lemma retrieval_unfold:
  assumes "ds \<noteq> []" and "query \<noteq> []"
  shows "simple_keyword_retrieval ds query top_k =
     (if filter (\<lambda>d. 0 < match_count query d) ds = [] then py_slice_to ds top_k
      else py_slice_to (py_sort_reverse (match_count query)
             (filter (\<lambda>d. 0 < match_count query d) ds)) top_k)"
proof -
  let ?q = "remdups (py_split query)"
  let ?pos = "filter (\<lambda>d. 0 < match_count query d) ds"
  have sc: "scored_loop ?q ds = map (\<lambda>d. (match_count query d, d)) ?pos"
    by (simp add: scored_loop_eq score_loop_match_count)
  have srt: "map snd (py_sort_reverse fst (map (\<lambda>d. (match_count query d, d)) ?pos))
           = py_sort_reverse (match_count query) ?pos"
    by (simp add: py_sort_reverse_map comp_def)
  have sl: "map snd (py_slice_to xs top_k) = py_slice_to (map snd xs) top_k"
    for xs :: "(nat \<times> pystr) list"
    by (simp add: py_slice_to_def take_map)
  show ?thesis
    using assms
    by (simp add: simple_keyword_retrieval_def Let_def sc sl srt del: filter_filter)
qed

lemma py_split_Nil [simp]: "py_split [] = []"
  by (simp add: py_split_def)

lemma files_loop_eq:
  "files_loop fs root files = concat (map (file_documents fs root) (filter recognized files))"
  by (induction files)
     (simp_all add: recognized_def file_documents_def Let_def split: sum.splits)

lemma walk_loop_eq:
  "walk_loop fs triples
     = concat (map (\<lambda>(root, dirs, files).
                      concat (map (file_documents fs root) (filter recognized files))) triples)"
  by (induction triples) (auto simp: files_loop_eq)

lemma load_text_files_eq:
  "load_text_files_from_folder fs folder_path
     = (if folder_path \<noteq> [] \<and> isdir fs (expanduser fs folder_path)
        then folder_documents fs (expanduser fs folder_path) else [])"
  by (simp add: load_text_files_from_folder_def folder_documents_def walk_loop_eq Let_def)

lemma recognized_examples:
  "recognized (asc ''a.txt'')" "recognized (asc ''b.MD'')" "\<not> recognized (asc ''c.bin'')"
  by (simp_all add: recognized_def exts_def py_lower_def splitext_ext_def asc_def)

section \<open>Claim C1: the shared context is append-only\<close>

text \<open>
  C1. In every run, for every number \<open>k\<close> of turns taken so far (in the chronological
  order of \<^const>\<open>schedule\<close>: round by round, agents in list order), the log holds the
  first \<open>k\<close> records of the run and the shared context equals the formatted scenario
  line followed by the formatted entries of exactly those \<open>k\<close> records. This context is
  the one passed to the next call of \<open>act\<close>, whose reply becomes record \<open>k\<close>, and the
  turn appends the entry of that record to the context and changes nothing before it.
  After the last turn the context is the scenario line followed by the entries of all
  records.
\<close>

theorem context_append_only:
  assumes "k \<le> length (schedule (length agents0) turns)"
  shows "let sched = schedule (length agents0) turns;
             fin = generate svc scenario turns agents0 s0;
             stk = run_steps svc (take k sched) (init_state scenario agents0 s0)
         in messages_log stk = take k (messages_log fin)
          \<and> global_context stk = context_of scenario (take k (messages_log fin))
          \<and> (k < length sched \<longrightarrow>
               content (messages_log fin ! k)
                 = fst (act svc (agents stk ! snd (sched ! k)) (global_context stk)
                          (service_state stk))
             \<and> global_context (turn_step svc (fst (sched ! k)) (snd (sched ! k)) stk)
                 = global_context stk @ entry_of_msg (messages_log fin ! k))
          \<and> length (messages_log fin) = length sched
          \<and> global_context fin = context_of scenario (messages_log fin)"
proof -
  let ?sched = "schedule (length agents0) turns"
  let ?init = "init_state scenario agents0 s0 :: 'a run_state"
  let ?fin = "generate svc scenario turns agents0 s0"
  let ?stk = "run_steps svc (take k ?sched) ?init"
  have log: "messages_log ?stk = take k (messages_log ?fin)"
    by (simp add: generate_messages_log take_steps_msgs run_steps_messages_log)
       (simp add: init_state_def)
  have ctx: "global_context ?stk = context_of scenario (take k (messages_log ?fin))"
    by (simp add: generate_messages_log take_steps_msgs run_steps_global_context context_of_def)
       (simp add: init_state_def)
  have nxt: "content (messages_log ?fin ! k)
                 = fst (act svc (agents ?stk ! snd (?sched ! k)) (global_context ?stk)
                          (service_state ?stk))
             \<and> global_context (turn_step svc (fst (?sched ! k)) (snd (?sched ! k)) ?stk)
                 = global_context ?stk @ entry_of_msg (messages_log ?fin ! k)"
    if "k < length ?sched"
    using nth_steps_msgs [OF that, of svc ?init]
    by (simp add: generate_messages_log turn_step_global_context step_msg_def step_reply_def)
  have len: "length (messages_log ?fin) = length ?sched"
    by (simp add: generate_messages_log)
  show ?thesis
    unfolding Let_def using log ctx nxt len generate_global_context [of svc scenario turns agents0 s0]
    by blast
qed

theorem context_append_only_witness:
  "2 \<le> length (schedule (length [trivial_agent (asc ''A''), trivial_agent (asc ''B'')]) 2) \<and>
   (let sched = schedule (length [trivial_agent (asc ''A''), trivial_agent (asc ''B'')]) 2;
        fin = generate echo_stub (asc ''s'') 2 [trivial_agent (asc ''A''), trivial_agent (asc ''B'')] ();
        stk = run_steps echo_stub (take 2 sched)
                (init_state (asc ''s'') [trivial_agent (asc ''A''), trivial_agent (asc ''B'')] ())
    in messages_log stk = take 2 (messages_log fin)
     \<and> global_context stk = context_of (asc ''s'') (take 2 (messages_log fin))
     \<and> (2 < length sched \<longrightarrow>
          content (messages_log fin ! 2)
            = fst (act echo_stub (agents stk ! snd (sched ! 2)) (global_context stk)
                     (service_state stk))
        \<and> global_context (turn_step echo_stub (fst (sched ! 2)) (snd (sched ! 2)) stk)
            = global_context stk @ entry_of_msg (messages_log fin ! 2))
     \<and> length (messages_log fin) = length sched
     \<and> global_context fin = context_of (asc ''s'') (messages_log fin))"
proof -
  have h: "2 \<le> length (schedule (length [trivial_agent (asc ''A''), trivial_agent (asc ''B'')]) 2)"
    by simp
  show ?thesis
    by (rule conjI [OF h context_append_only [OF h]])
qed

section \<open>Claim C2: two agents, two rounds, an echoing stub\<close>

text \<open>
  C2. A request with \<open>turns = 2\<close> and two agents that have only the names A and B, run
  against the stub that echoes its last input, succeeds with exactly four message
  records, with speaker and round (A, 1), (B, 1), (A, 2), (B, 2), followed by the done
  marker with a total of 4. In general, for any service, scenario, turn count and agent
  list, the records follow the rounds \<open>1, 2, \<dots>\<close> and inside a round the agents in
  their list order, and the done marker carries the number of records.
\<close>

theorem echo_two_agents_two_turns:
  "(\<exists>st. simulate_stream fs echo_stub
           \<lparr>req_scenario = sc, req_turns = Some 2,
            req_agents = Some [[asc ''name'' \<mapsto> asc ''A''], [asc ''name'' \<mapsto> asc ''B'']]\<rparr> ()
         = Inr st
       \<and> map (\<lambda>m. (speaker m, turn m)) (messages_log st)
           = [(asc ''A'', 1), (asc ''B'', 1), (asc ''A'', 2), (asc ''B'', 2)]
       \<and> emitted st = map Message (messages_log st) @ [Done 4])
   \<and> map (\<lambda>m. (speaker m, turn m)) (messages_log (generate svc scenario turns agents0 s0))
       = concat (map (\<lambda>t. map (\<lambda>a. (name (config a), t + 1)) agents0) [0..<nat turns])
   \<and> emitted (generate svc scenario turns agents0 s0)
       = map Message (messages_log (generate svc scenario turns agents0 s0))
         @ [Done (nat turns * length agents0)]"
proof -
  let ?data = "[[asc ''name'' \<mapsto> asc ''A''], [asc ''name'' \<mapsto> asc ''B'']]"
  let ?ags = "build_agents_from_request fs ?data"
  have names: "map (\<lambda>a. name (config a)) ?ags = [asc ''A'', asc ''B'']"
    unfolding build_agents_names by (simp add: dict_get_def py_strip_def asc_def isspace_def)
  have "length (map (\<lambda>a. name (config a)) ?ags) = 2"
    unfolding names by simp
  then have len: "length ?ags = 2" by simp
  have "map (\<lambda>a. name (config a)) ?ags ! 0 = asc ''A''"
    and "map (\<lambda>a. name (config a)) ?ags ! 1 = asc ''B''"
    unfolding names by simp_all
  with len have n0: "name (config (?ags ! 0)) = asc ''A''"
    and n1: "name (config (?ags ! 1)) = asc ''B''"
    by simp_all
  from len have ne: "?ags \<noteq> []" by auto
  have spk: "map (\<lambda>m. (speaker m, turn m)) (messages_log (generate echo_stub scenario' 2 ?ags ()))
           = [(asc ''A'', 1), (asc ''B'', 1), (asc ''A'', 2), (asc ''B'', 2)]" for scenario'
    unfolding generate_speakers len schedule_2_2 using n0 n1 by simp
  have em: "emitted (generate echo_stub scenario' 2 ?ags ())
           = map Message (messages_log (generate echo_stub scenario' 2 ?ags ())) @ [Done 4]" for scenario'
    unfolding generate_emitted len by simp
  have concrete: "\<exists>st. simulate_stream fs echo_stub
           \<lparr>req_scenario = sc, req_turns = Some 2, req_agents = Some ?data\<rparr> ()
         = Inr st
       \<and> map (\<lambda>m. (speaker m, turn m)) (messages_log st)
           = [(asc ''A'', 1), (asc ''B'', 1), (asc ''A'', 2), (asc ''B'', 2)]
       \<and> emitted st = map Message (messages_log st) @ [Done 4]"
    using ne spk em by (simp add: simulate_stream_def Let_def)
  have sched: "map (\<lambda>(k, i). (name (config (agents0 ! i)), k)) (schedule (length agents0) turns)
       = concat (map (\<lambda>t. map (\<lambda>a. (name (config a), t + 1)) agents0) [0..<nat turns])"
  proof -
    have "map (\<lambda>i. (name (config (agents0 ! i)), t)) [0..<length agents0]
        = map (\<lambda>a. (name (config a), t)) agents0" for t :: nat
      by (rule nth_equalityI) simp_all
    then show ?thesis
      by (simp add: schedule_def map_concat comp_def)
  qed
  show ?thesis
    using concrete sched generate_speakers [of svc scenario turns agents0 s0]
      generate_emitted [of svc scenario turns agents0 s0]
    by simp
qed

theorem echo_two_agents_two_turns_witness:
  "(\<exists>st. simulate_stream empty_fs echo_stub
           \<lparr>req_scenario = None, req_turns = Some 2,
            req_agents = Some [[asc ''name'' \<mapsto> asc ''A''], [asc ''name'' \<mapsto> asc ''B'']]\<rparr> ()
         = Inr st
       \<and> map (\<lambda>m. (speaker m, turn m)) (messages_log st)
           = [(asc ''A'', 1), (asc ''B'', 1), (asc ''A'', 2), (asc ''B'', 2)]
       \<and> emitted st = map Message (messages_log st) @ [Done 4])
   \<and> map (\<lambda>m. (speaker m, turn m)) (messages_log (generate failing_stub [] 3 [trivial_agent (asc ''X'')] ()))
       = concat (map (\<lambda>t. map (\<lambda>a. (name (config a), t + 1)) [trivial_agent (asc ''X'')]) [0..<nat 3])
   \<and> emitted (generate failing_stub [] 3 [trivial_agent (asc ''X'')] ())
       = map Message (messages_log (generate failing_stub [] 3 [trivial_agent (asc ''X'')] ()))
         @ [Done (nat 3 * length [trivial_agent (asc ''X'')])]"
  by (rule echo_two_agents_two_turns)

section \<open>Claim C3: a service that always fails\<close>

text \<open>
  C3. When every call of the text-generation service raises, the run still completes: it
  produces exactly \<open>turns\<close> times the number of agents message records, the content of
  each is the failure notice built from an exception the service raised, and the lines
  emitted are those records followed by the done marker with that total; no error line
  is emitted.
\<close>

theorem failing_service_run_completes:
  assumes "\<forall>s messages. \<exists>e s'. svc s messages = (Inl e, s')"
  shows "let fin = generate svc scenario turns agents0 s0
         in length (messages_log fin) = nat turns * length agents0
          \<and> (\<forall>m \<in> set (messages_log fin).
               \<exists>e s messages s'. svc s messages = (Inl e, s')
                  \<and> content m = llm_err_open @ exn_repr e @ llm_err_close)
          \<and> emitted fin = map Message (messages_log fin) @ [Done (nat turns * length agents0)]"
proof -
  have reply: "\<exists>e s' messages s''. svc s' messages = (Inl e, s'')
          \<and> fst (act svc a ctx s) = llm_err_open @ exn_repr e @ llm_err_close" for a ctx s
  proof -
    obtain messages where m: "fst (act svc a ctx s) = fst (call_llm svc messages s)"
      using act_reply_call [of svc a ctx s] by auto
    from assms obtain e s' where e: "svc s messages = (Inl e, s')" by blast
    from call_llm_failing [of svc s messages e s', OF e] m e show ?thesis by auto
  qed
  have "\<forall>m \<in> set (steps_msgs svc sched st).
       \<exists>e s messages s'. svc s messages = (Inl e, s')
          \<and> content m = llm_err_open @ exn_repr e @ llm_err_close" for sched st
    by (rule steps_msgs_content) (rule reply)
  then have msgs: "\<forall>m \<in> set (messages_log (generate svc scenario turns agents0 s0)).
       \<exists>e s messages s'. svc s messages = (Inl e, s')
          \<and> content m = llm_err_open @ exn_repr e @ llm_err_close"
    unfolding generate_messages_log by blast
  have len: "length (messages_log (generate svc scenario turns agents0 s0)) = nat turns * length agents0"
    by (simp add: generate_messages_log)
  show ?thesis
    unfolding Let_def using msgs len generate_emitted [of svc scenario turns agents0 s0] by blast
qed

theorem failing_service_run_completes_witness:
  "(\<forall>s messages. \<exists>e s'. failing_stub s messages = (Inl e, s')) \<and>
   (let fin = generate failing_stub (asc ''s'') 2 [trivial_agent (asc ''A''), trivial_agent (asc ''B'')] ()
    in length (messages_log fin) = nat 2 * length [trivial_agent (asc ''A''), trivial_agent (asc ''B'')]
     \<and> (\<forall>m \<in> set (messages_log fin).
          \<exists>e s messages s'. failing_stub s messages = (Inl e, s')
             \<and> content m = llm_err_open @ exn_repr e @ llm_err_close)
     \<and> emitted fin = map Message (messages_log fin) @ [Done (nat 2 * length [trivial_agent (asc ''A''), trivial_agent (asc ''B'')])])"
proof -
  have h: "\<forall>s messages. \<exists>e s'. failing_stub s messages = (Inl e, s')"
    by (simp add: failing_stub_def)
  show ?thesis
    by (rule conjI [OF h failing_service_run_completes [OF h]])
qed

section \<open>Claim C4: retrieval when some token matches\<close>

text \<open>
  C4. For a non-empty document list and a query with at least one whitespace-separated
  token that occurs in some document, and a count \<open>top_k\<close> that is not negative,
  \<open>simple_keyword_retrieval\<close> returns at most \<open>top_k\<close> documents, each of them a document
  of the list in which some query token occurs, in descending order of the number of
  distinct query tokens occurring in them. The result is the first \<open>top_k\<close> elements of
  a ranking of all the matching documents that is sorted by descending count and in
  which documents with equal counts keep their original order.
\<close>

theorem retrieval_ranked:
  assumes "ds \<noteq> []"
    and "\<exists>t \<in> set (py_split query). \<exists>d \<in> set ds. py_in t d"
    and "0 \<le> top_k"
  shows "let res = simple_keyword_retrieval ds query top_k
         in length res \<le> nat top_k
          \<and> (\<forall>d \<in> set res. d \<in> set ds \<and> (\<exists>t \<in> set (py_split query). py_in t d))
          \<and> sorted_wrt (\<lambda>a b. match_count query b \<le> match_count query a) res
          \<and> (\<exists>ranked. res = take (nat top_k) ranked
                \<and> mset ranked = mset (filter (\<lambda>d. 0 < match_count query d) ds)
                \<and> sorted_wrt (\<lambda>a b. match_count query b \<le> match_count query a) ranked
                \<and> (\<forall>c. filter (\<lambda>d. match_count query d = c) ranked
                         = filter (\<lambda>d. match_count query d = c)
                             (filter (\<lambda>d. 0 < match_count query d) ds)))"
proof -
  let ?mc = "match_count query"
  let ?pos = "filter (\<lambda>d. 0 < ?mc d) ds"
  let ?ranked = "py_sort_reverse ?mc ?pos"
  let ?res = "simple_keyword_retrieval ds query top_k"
  from assms(2) have q: "query \<noteq> []" by auto
  from assms(2) have "\<exists>d \<in> set ds. 0 < ?mc d" by (auto simp: match_count_pos)
  then have pos: "?pos \<noteq> []" by (simp add: filter_empty_conv)
  have res: "?res = take (nat top_k) ?ranked"
    using retrieval_unfold [OF assms(1) q, of top_k] pos assms(3)
    by (simp add: py_slice_to_nonneg del: filter_filter)
  have m: "mset ?ranked = mset ?pos" by (rule py_sort_reverse_mset)
  have s: "sorted_wrt (\<lambda>a b. ?mc b \<le> ?mc a) ?ranked" by (rule py_sort_reverse_sorted)
  have st: "\<forall>c. filter (\<lambda>d. ?mc d = c) ?ranked = filter (\<lambda>d. ?mc d = c) ?pos"
    by (simp only: py_sort_reverse_stable) simp
  have len: "length ?res \<le> nat top_k" by (simp add: res)
  have "set ?res \<subseteq> set ?ranked" unfolding res by (rule set_take_subset)
  also have "set ?ranked = set ?pos" using m by (rule mset_eq_setD)
  finally have mem: "\<forall>d \<in> set ?res. d \<in> set ds \<and> (\<exists>t \<in> set (py_split query). py_in t d)"
    by (auto simp: match_count_pos)
  have s': "sorted_wrt (\<lambda>a b. ?mc b \<le> ?mc a) ?res"
    unfolding res using s by (rule sorted_wrt_take)
  from res m s st have "\<exists>ranked. ?res = take (nat top_k) ranked
                \<and> mset ranked = mset ?pos
                \<and> sorted_wrt (\<lambda>a b. ?mc b \<le> ?mc a) ranked
                \<and> (\<forall>c. filter (\<lambda>d. ?mc d = c) ranked = filter (\<lambda>d. ?mc d = c) ?pos)"
    by blast
  with len mem s' show ?thesis unfolding Let_def by blast
qed

theorem retrieval_ranked_witness:
  "[asc ''ab cd'', asc ''xx'', asc ''cd e''] \<noteq> []
   \<and> (\<exists>t \<in> set (py_split (asc ''cd e'')).
        \<exists>d \<in> set [asc ''ab cd'', asc ''xx'', asc ''cd e'']. py_in t d)
   \<and> (0::int) \<le> 3
   \<and> (let res = simple_keyword_retrieval [asc ''ab cd'', asc ''xx'', asc ''cd e''] (asc ''cd e'') 3
       in length res \<le> nat 3
        \<and> (\<forall>d \<in> set res. d \<in> set [asc ''ab cd'', asc ''xx'', asc ''cd e'']
              \<and> (\<exists>t \<in> set (py_split (asc ''cd e'')). py_in t d))
        \<and> sorted_wrt (\<lambda>a b. match_count (asc ''cd e'') b \<le> match_count (asc ''cd e'') a) res
        \<and> (\<exists>ranked. res = take (nat 3) ranked
              \<and> mset ranked = mset (filter (\<lambda>d. 0 < match_count (asc ''cd e'') d)
                                       [asc ''ab cd'', asc ''xx'', asc ''cd e''])
              \<and> sorted_wrt (\<lambda>a b. match_count (asc ''cd e'') b \<le> match_count (asc ''cd e'') a) ranked
              \<and> (\<forall>c. filter (\<lambda>d. match_count (asc ''cd e'') d = c) ranked
                       = filter (\<lambda>d. match_count (asc ''cd e'') d = c)
                           (filter (\<lambda>d. 0 < match_count (asc ''cd e'') d)
                              [asc ''ab cd'', asc ''xx'', asc ''cd e'']))))"
proof -
  have h1: "[asc ''ab cd'', asc ''xx'', asc ''cd e''] \<noteq> []" by simp
  have h2: "\<exists>t \<in> set (py_split (asc ''cd e'')).
        \<exists>d \<in> set [asc ''ab cd'', asc ''xx'', asc ''cd e'']. py_in t d"
    by (simp add: py_split_def isspace_def asc_def sublist_code)
  have h3: "(0::int) \<le> 3" by simp
  from h1 h2 h3 retrieval_ranked [OF h1 h2 h3] show ?thesis by blast
qed

text \<open>An example: the query has the distinct tokens \<open>cd\<close> and \<open>e\<close>; the third and the
  fourth document contain both and keep their order, the first contains one, the second
  none.\<close>

lemma py_split_example: "py_split (asc ''cd e cd'') = [asc ''cd'', asc ''e'', asc ''cd'']"
  by (simp add: py_split_def isspace_def asc_def)

lemma retrieval_example:
  "simple_keyword_retrieval [asc ''ab cd'', asc ''xx'', asc ''cd e'', asc ''e cd ab'']
     (asc ''cd e cd'') 3 = [asc ''cd e'', asc ''e cd ab'', asc ''ab cd'']"
  unfolding simple_keyword_retrieval_def py_split_example
  by (simp add: asc_def sublist_code py_slice_to_def py_sort_reverse_def)

section \<open>Claim C5: retrieval when no token matches\<close>

text \<open>
  C5, as stated, says that with no matching token, also for an empty query, the first
  \<open>top_k\<close> documents are returned. The code returns the empty list for an empty query:
  the guard at the head of \<open>simple_keyword_retrieval\<close> answers an empty query like an
  empty document list.
\<close>

theorem retrieval_empty_query_counterexample:
  "simple_keyword_retrieval [asc ''a''] [] 3 \<noteq> take 3 [asc ''a'']"
  by (simp add: simple_keyword_retrieval_def)

text \<open>
  C5, amended. When no document contains any token of the query and \<open>top_k\<close> is not
  negative, \<open>simple_keyword_retrieval\<close> returns the empty list if the document list or the
  query is empty, and otherwise (a query of unmatched tokens, or of whitespace only) the
  first \<open>top_k\<close> documents in their original order, all of them if there are fewer.
\<close>

theorem retrieval_no_match:
  assumes "\<forall>t \<in> set (py_split query). \<forall>d \<in> set ds. \<not> py_in t d"
    and "0 \<le> top_k"
  shows "simple_keyword_retrieval ds query top_k
           = (if ds = [] \<or> query = [] then [] else take (nat top_k) ds)"
proof (cases "ds = [] \<or> query = []")
  case True
  then show ?thesis by (auto simp: simple_keyword_retrieval_def)
next
  case False
  from assms(1) have "\<forall>d \<in> set ds. \<not> 0 < match_count query d"
    by (auto simp: match_count_pos)
  then have "filter (\<lambda>d. 0 < match_count query d) ds = []"
    by (simp add: filter_empty_conv)
  with False assms(2) retrieval_unfold [of ds query top_k] show ?thesis
    by (simp add: py_slice_to_nonneg)
qed

theorem retrieval_no_match_witness:
  "simple_keyword_retrieval [asc ''ab'', asc ''cd''] (asc ''zz'') 1 = [asc ''ab'']
   \<and> simple_keyword_retrieval [asc ''ab'', asc ''cd''] (asc '' '') 5 = [asc ''ab'', asc ''cd'']
   \<and> simple_keyword_retrieval [asc ''ab'', asc ''cd''] [] 5 = []"
proof -
  have h1: "\<forall>t \<in> set (py_split (asc ''zz'')). \<forall>d \<in> set [asc ''ab'', asc ''cd'']. \<not> py_in t d"
    by (simp add: py_split_def isspace_def asc_def sublist_code)
  have h2: "\<forall>t \<in> set (py_split (asc '' '')). \<forall>d \<in> set [asc ''ab'', asc ''cd'']. \<not> py_in t d"
    by (simp add: py_split_def isspace_def asc_def)
  have h3: "\<forall>t \<in> set (py_split []). \<forall>d \<in> set [asc ''ab'', asc ''cd'']. \<not> py_in t d"
    by simp
  from retrieval_no_match [OF h1, of 1]
  have 1: "simple_keyword_retrieval [asc ''ab'', asc ''cd''] (asc ''zz'') 1 = [asc ''ab'']"
    by (simp add: asc_def)
  from retrieval_no_match [OF h2, of 5]
  have 2: "simple_keyword_retrieval [asc ''ab'', asc ''cd''] (asc '' '') 5 = [asc ''ab'', asc ''cd'']"
    by (simp add: asc_def)
  from retrieval_no_match [OF h3, of 5]
  have 3: "simple_keyword_retrieval [asc ''ab'', asc ''cd''] [] 5 = []"
    by simp
  from 1 2 3 show ?thesis by blast
qed

section \<open>Claim C6: the knowledge base of an agent\<close>

text \<open>
  C6, as stated, says that every file with a recognized extension gives one document. A
  file whose text is empty after stripping whitespace gives none: the loader appends a
  document only for a non-empty text.
\<close>

theorem blank_file_counterexample:
  "walk blank_file_fs (asc ''kb'') = [(asc ''kb'', [], [asc ''a.txt''])]
   \<and> recognized (asc ''a.txt'')
   \<and> read_text blank_file_fs (path_join (asc ''kb'') (asc ''a.txt'')) = Inr [10]
   \<and> docs (Agent_init blank_file_fs (folder_config [] (asc ''kb''))) = []"
  by (simp add: blank_file_fs_def folder_config_def Agent_init_def
      load_text_files_from_folder_def recognized_def exts_def py_lower_def splitext_ext_def
      py_strip_def isspace_def asc_def Let_def)

text \<open>
  C6, amended. The documents of a new agent are, in this order: the inline knowledge text
  as one document if it is not empty; then, if the knowledge mode is \<open>folder\<close>, a folder
  path is given and it is a directory, the documents of the files with a recognized
  extension (txt, md, log, in any letter case) in the order of the directory walk. Each
  such file gives at most one document: the failure notice with its full path if it
  cannot be read, the file-name label followed by its stripped text if that text is not
  empty, and nothing if it is empty. A missing directory, or one with no recognized
  file, gives no document and is no error.
\<close>

theorem knowledge_base_built:
  "docs (Agent_init fs cfg)
     = (if knowledge cfg = [] then [] else [knowledge cfg])
       @ (if knowledge_mode cfg = asc ''folder'' \<and> knowledge_folder cfg \<noteq> []
             \<and> isdir fs (expanduser fs (knowledge_folder cfg))
          then folder_documents fs (expanduser fs (knowledge_folder cfg)) else [])
   \<and> length (file_documents fs root fname) \<le> 1
   \<and> (read_text fs (path_join root fname) = Inl e \<longrightarrow>
        file_documents fs root fname
          = [readfail_open @ path_join root fname @ readfail_close @ exn_str e])
   \<and> (read_text fs (path_join root fname) = Inr raw \<longrightarrow>
        file_documents fs root fname
          = (if py_strip raw = [] then [] else [file_open @ fname @ file_close @ py_strip raw]))
   \<and> ((\<forall>(r, dirs, files) \<in> set (walk fs folder). filter recognized files = []) \<longrightarrow>
        folder_documents fs folder = [])"
proof -
  have 1: "docs (Agent_init fs cfg)
     = (if knowledge cfg = [] then [] else [knowledge cfg])
       @ (if knowledge_mode cfg = asc ''folder'' \<and> knowledge_folder cfg \<noteq> []
             \<and> isdir fs (expanduser fs (knowledge_folder cfg))
          then folder_documents fs (expanduser fs (knowledge_folder cfg)) else [])"
    by (simp add: Agent_init_def Let_def load_text_files_eq)
  have 2: "length (file_documents fs root fname) \<le> 1"
    by (simp add: file_documents_def split: sum.splits)
  have 3: "file_documents fs root fname
          = [readfail_open @ path_join root fname @ readfail_close @ exn_str e]"
    if "read_text fs (path_join root fname) = Inl e"
    using that by (simp add: file_documents_def)
  have 4: "file_documents fs root fname
          = (if py_strip raw = [] then [] else [file_open @ fname @ file_close @ py_strip raw])"
    if "read_text fs (path_join root fname) = Inr raw"
    using that by (simp add: file_documents_def)
  have 5: "folder_documents fs folder = []"
    if "\<forall>(r, dirs, files) \<in> set (walk fs folder). filter recognized files = []"
    using that by (auto simp: folder_documents_def)
  from 1 2 3 4 5 show ?thesis by blast
qed

theorem knowledge_base_built_witness:
  "docs (Agent_init two_file_fs (folder_config (asc ''k'') (asc ''kb'')))
     = [asc ''k'',
        file_open @ asc ''a.txt'' @ file_close @ asc ''hi'',
        readfail_open @ asc ''kb/b.MD'' @ readfail_close @ asc ''denied'']
   \<and> docs (Agent_init empty_fs (folder_config (asc ''k'') (asc ''kb''))) = [asc ''k'']"
proof -
  have w: "walk two_file_fs (asc ''kb'')
             = [(asc ''kb'', [], [asc ''a.txt'', asc ''b.MD'', asc ''c.bin''])]"
    by (simp add: two_file_fs_def)
  have p1: "path_join (asc ''kb'') (asc ''a.txt'') = asc ''kb/a.txt''"
    and p2: "path_join (asc ''kb'') (asc ''b.MD'') = asc ''kb/b.MD''"
    by (simp_all add: path_join_def asc_def)
  have ne: "asc ''kb/b.MD'' \<noteq> asc ''kb/a.txt''" by (simp add: asc_def)
  have s: "py_strip (asc ''hi '') = asc ''hi''"
    by (simp add: py_strip_def isspace_def asc_def)
  have hi: "asc ''hi'' \<noteq> []" by (simp add: asc_def)
  have f1: "file_documents two_file_fs (asc ''kb'') (asc ''a.txt'')
              = [file_open @ asc ''a.txt'' @ file_close @ asc ''hi'']"
    by (simp add: file_documents_def p1 two_file_fs_def s hi)
  have f2: "file_documents two_file_fs (asc ''kb'') (asc ''b.MD'')
              = [readfail_open @ asc ''kb/b.MD'' @ readfail_close @ asc ''denied'']"
    by (simp add: file_documents_def p2 two_file_fs_def ne)
  have fd: "folder_documents two_file_fs (asc ''kb'')
      = [file_open @ asc ''a.txt'' @ file_close @ asc ''hi'',
         readfail_open @ asc ''kb/b.MD'' @ readfail_close @ asc ''denied'']"
    by (simp add: folder_documents_def w recognized_examples f1 f2)
  have k: "asc ''k'' \<noteq> []" "asc ''kb'' \<noteq> []" by (simp_all add: asc_def)
  have d: "expanduser two_file_fs (asc ''kb'') = asc ''kb''"
    "isdir two_file_fs (asc ''kb'')"
    "\<not> isdir empty_fs (expanduser empty_fs (asc ''kb''))"
    by (simp_all add: two_file_fs_def empty_fs_def)
  have c: "knowledge (folder_config (asc ''k'') (asc ''kb'')) = asc ''k''"
    "knowledge_mode (folder_config (asc ''k'') (asc ''kb'')) = asc ''folder''"
    "knowledge_folder (folder_config (asc ''k'') (asc ''kb'')) = asc ''kb''"
    by (simp_all add: folder_config_def)
  have 1: "docs (Agent_init two_file_fs (folder_config (asc ''k'') (asc ''kb'')))
     = [asc ''k'',
        file_open @ asc ''a.txt'' @ file_close @ asc ''hi'',
        readfail_open @ asc ''kb/b.MD'' @ readfail_close @ asc ''denied'']"
    unfolding knowledge_base_built [of two_file_fs "folder_config (asc ''k'') (asc ''kb'')",
        THEN conjunct1] c
    by (simp add: k d fd)
  have 2: "docs (Agent_init empty_fs (folder_config (asc ''k'') (asc ''kb''))) = [asc ''k'']"
    unfolding knowledge_base_built [of empty_fs "folder_config (asc ''k'') (asc ''kb'')",
        THEN conjunct1] c
    by (simp add: k d)
  from 1 2 show ?thesis by (rule conjI)
qed

section \<open>Claim C7: a request without a valid agent\<close>

text \<open>
  C7. When every entry of the request's agent list has a missing, empty or blank name (or
  the list is missing or empty), \<open>simulate_stream\<close> answers with the error response of
  status 400 and no run takes place, so no message record is emitted. When at least one
  entry has a non-blank name the request is accepted, and the agents are those of the
  entries with a non-blank name, in order: the other entries are skipped.
\<close>

theorem no_valid_agents_rejected:
  assumes "agents_data = (case req_agents data of None \<Rightarrow> [] | Some v \<Rightarrow> v)"
  shows "((\<forall>a \<in> set agents_data. py_strip (dict_get a (asc ''name'') []) = [])
            \<longrightarrow> simulate_stream fs svc data s0
                  = Inl (HttpError 400 (asc ''No valid agents provided.'')))
       \<and> ((\<exists>a \<in> set agents_data. py_strip (dict_get a (asc ''name'') []) \<noteq> [])
            \<longrightarrow> (\<exists>st. simulate_stream fs svc data s0 = Inr st
                  \<and> map (\<lambda>a. name (config a)) (agents st)
                      = filter (\<lambda>n. n \<noteq> [])
                          (map (\<lambda>a. py_strip (dict_get a (asc ''name'') [])) agents_data)))
       \<and> map (\<lambda>a. name (config a)) (build_agents_from_request fs agents_data)
           = filter (\<lambda>n. n \<noteq> [])
               (map (\<lambda>a. py_strip (dict_get a (asc ''name'') [])) agents_data)"
proof -
  let ?ags = "build_agents_from_request fs agents_data"
  have bad: "simulate_stream fs svc data s0 = Inl (HttpError 400 (asc ''No valid agents provided.''))"
    if "\<forall>a \<in> set agents_data. py_strip (dict_get a (asc ''name'') []) = []"
  proof -
    from that have "?ags = []" by (simp add: build_agents_eq_Nil)
    with assms show ?thesis by (simp add: simulate_stream_def Let_def)
  qed
  have good: "\<exists>st. simulate_stream fs svc data s0 = Inr st
                  \<and> map (\<lambda>a. name (config a)) (agents st)
                      = filter (\<lambda>n. n \<noteq> [])
                          (map (\<lambda>a. py_strip (dict_get a (asc ''name'') [])) agents_data)"
    if "\<exists>a \<in> set agents_data. py_strip (dict_get a (asc ''name'') []) \<noteq> []"
  proof -
    from that have ne: "?ags \<noteq> []" by (simp add: build_agents_eq_Nil)
    have "map config (agents (generate svc sc turns ?ags s0)) = map config ?ags" for sc turns
      by (simp add: generate_run_steps Let_def) (simp add: init_state_def)
    then have "map (name \<circ> config) (agents (generate svc sc turns ?ags s0))
                 = map (name \<circ> config) ?ags" for sc turns
      by (metis map_map)
    then have "map (\<lambda>a. name (config a)) (agents (generate svc sc turns ?ags s0))
                 = map (\<lambda>a. name (config a)) ?ags" for sc turns
      by (simp add: comp_def)
    with ne assms show ?thesis
      by (simp add: simulate_stream_def Let_def build_agents_names)
  qed
  show ?thesis using bad good build_agents_names [of fs agents_data] by blast
qed

theorem no_valid_agents_rejected_witness:
  "simulate_stream empty_fs echo_stub
       \<lparr>req_scenario = None, req_turns = None,
        req_agents = Some [Map.empty, [asc ''name'' \<mapsto> asc '' '']]\<rparr> ()
     = Inl (HttpError 400 (asc ''No valid agents provided.''))
   \<and> (\<exists>st. simulate_stream empty_fs echo_stub
         \<lparr>req_scenario = None, req_turns = None,
          req_agents = Some [Map.empty, [asc ''name'' \<mapsto> asc ''A'']]\<rparr> () = Inr st
        \<and> map (\<lambda>a. name (config a)) (agents st) = [asc ''A''])"
proof -
  have bad: "\<forall>a \<in> set [Map.empty, [asc ''name'' \<mapsto> asc '' '']].
               py_strip (dict_get a (asc ''name'') []) = []"
    by (simp add: dict_get_def py_strip_def asc_def isspace_def)
  have good: "\<exists>a \<in> set [Map.empty, [asc ''name'' \<mapsto> asc ''A'']].
               py_strip (dict_get a (asc ''name'') []) \<noteq> []"
    by (simp add: dict_get_def py_strip_def asc_def isspace_def)
  have names: "filter (\<lambda>n. n \<noteq> [])
                 (map (\<lambda>a. py_strip (dict_get a (asc ''name'') []))
                    [Map.empty, [asc ''name'' \<mapsto> asc ''A'']]) = [asc ''A'']"
    by (simp add: dict_get_def py_strip_def asc_def isspace_def)
  from no_valid_agents_rejected [of "[Map.empty, [asc ''name'' \<mapsto> asc '' '']]"
      "\<lparr>req_scenario = None, req_turns = None,
        req_agents = Some [Map.empty, [asc ''name'' \<mapsto> asc '' '']]\<rparr>" empty_fs echo_stub "()"]
    bad
  have 1: "simulate_stream empty_fs echo_stub
       \<lparr>req_scenario = None, req_turns = None,
        req_agents = Some [Map.empty, [asc ''name'' \<mapsto> asc '' '']]\<rparr> ()
     = Inl (HttpError 400 (asc ''No valid agents provided.''))"
    by simp
  from no_valid_agents_rejected [of "[Map.empty, [asc ''name'' \<mapsto> asc ''A'']]"
      "\<lparr>req_scenario = None, req_turns = None,
        req_agents = Some [Map.empty, [asc ''name'' \<mapsto> asc ''A'']]\<rparr>" empty_fs echo_stub "()"]
    good
  have 2: "\<exists>st. simulate_stream empty_fs echo_stub
         \<lparr>req_scenario = None, req_turns = None,
          req_agents = Some [Map.empty, [asc ''name'' \<mapsto> asc ''A'']]\<rparr> () = Inr st
        \<and> map (\<lambda>a. name (config a)) (agents st) = [asc ''A'']"
    unfolding names by simp
  from 1 2 show ?thesis by (rule conjI)
qed

section \<open>Claim C8: an agent's history holds its own replies\<close>

text \<open>
  C8. Every call of \<open>act\<close> appends the reply it returns to the agent's history, tagged
  with the role assistant. So after \<open>K\<close> calls on an agent, whatever the contexts and
  the state of the service at those calls, its history is the history it had followed
  by the \<open>K\<close> replies in order; for a new agent the history has length \<open>K\<close>. In a
  run of several agents, the history of each agent at the end is its initial history
  followed by the replies of its own turns, one for each round, whatever the number of
  other agents.
\<close>

theorem history_records_own_replies:
  "(act_many svc a calls = (replies, a') \<longrightarrow>
      length replies = length calls
      \<and> history a' = history a @ map (Pair (asc ''assistant'')) replies)
   \<and> (act_many svc (Agent_init fs cfg) calls = (replies, a') \<longrightarrow>
        length (history a') = length calls
        \<and> history a' = map (Pair (asc ''assistant'')) replies)
   \<and> (act svc a ctx s = (reply, a', s') \<longrightarrow>
        history a' = history a @ [(asc ''assistant'', reply)])
   \<and> (j < length agents0 \<longrightarrow>
        (let fin = generate svc scenario turns agents0 s0;
             mine = replies_of j (schedule (length agents0) turns) (messages_log fin)
         in history (agents fin ! j) = history (agents0 ! j) @ map (Pair (asc ''assistant'')) mine
          \<and> length mine = nat turns))"
proof -
  have 1: "length replies = length calls
      \<and> history a' = history a @ map (Pair (asc ''assistant'')) replies"
    if "act_many svc a calls = (replies, a')" for a
    using act_many_history [OF that] by simp
  have 3: "history a' = history a @ [(asc ''assistant'', reply)]"
    if "act svc a ctx s = (reply, a', s')"
    using act_agent [OF that] by simp
  have 4: "let fin = generate svc scenario turns agents0 s0;
             mine = replies_of j (schedule (length agents0) turns) (messages_log fin)
         in history (agents fin ! j) = history (agents0 ! j) @ map (Pair (asc ''assistant'')) mine
          \<and> length mine = nat turns"
    if j: "j < length agents0"
  proof -
    let ?init = "init_state scenario agents0 s0 :: 'a run_state"
    from j have "j < length (agents ?init)" by (simp add: init_state_def)
    from run_steps_history [OF this, of svc "schedule (length agents0) turns"]
    have h: "history (agents (generate svc scenario turns agents0 s0) ! j)
           = history (agents0 ! j) @ map (Pair (asc ''assistant''))
               (replies_of j (schedule (length agents0) turns)
                  (messages_log (generate svc scenario turns agents0 s0)))"
      by (simp add: generate_messages_log) (simp add: generate_run_steps Let_def init_state_def)
    have l: "length (replies_of j (schedule (length agents0) turns)
                  (messages_log (generate svc scenario turns agents0 s0))) = nat turns"
      using length_replies_of [of "messages_log (generate svc scenario turns agents0 s0)"
          "schedule (length agents0) turns" j] schedule_turns_of [OF j, of turns]
      by (simp add: generate_messages_log)
    show ?thesis unfolding Let_def using h l by simp
  qed
  show ?thesis using 1 [of a] 1 [of "Agent_init fs cfg"] 3 4 by simp
qed

theorem history_records_own_replies_witness:
  "(\<exists>replies a'. act_many echo_stub (trivial_agent (asc ''A'')) [(asc ''x'', ()), (asc ''y'', ())]
        = (replies, a')
      \<and> length (history a') = 2
      \<and> history a' = map (Pair (asc ''assistant'')) replies)
   \<and> (let fin = generate echo_stub [] 2 [trivial_agent (asc ''A''), trivial_agent (asc ''B'')] ();
           mine = replies_of 1
                    (schedule (length [trivial_agent (asc ''A''), trivial_agent (asc ''B'')]) 2)
                    (messages_log fin)
       in history (agents fin ! 1)
            = history ([trivial_agent (asc ''A''), trivial_agent (asc ''B'')] ! 1)
              @ map (Pair (asc ''assistant'')) mine
        \<and> length mine = nat 2)"
proof -
  obtain replies a' where
    e: "act_many echo_stub (trivial_agent (asc ''A'')) [(asc ''x'', ()), (asc ''y'', ())] = (replies, a')"
    by (cases "act_many echo_stub (trivial_agent (asc ''A'')) [(asc ''x'', ()), (asc ''y'', ())]")
  have j: "1 < length [trivial_agent (asc ''A''), trivial_agent (asc ''B'')]" by simp
  note inst = history_records_own_replies [of echo_stub "trivial_agent (asc ''A'')"
      "[(asc ''x'', ()), (asc ''y'', ())]" replies a' _ _ _ _ _ _ 1
      "[trivial_agent (asc ''A''), trivial_agent (asc ''B'')]" "[]" 2 "()"]
  from inst e have "length (history a') = 2 \<and> history a' = map (Pair (asc ''assistant'')) replies"
    by simp
  with e have 1: "\<exists>replies a'. act_many echo_stub (trivial_agent (asc ''A'')) [(asc ''x'', ()), (asc ''y'', ())]
        = (replies, a')
      \<and> length (history a') = 2
      \<and> history a' = map (Pair (asc ''assistant'')) replies"
    by blast
  from inst j have 2: "let fin = generate echo_stub [] 2 [trivial_agent (asc ''A''), trivial_agent (asc ''B'')] ();
           mine = replies_of 1
                    (schedule (length [trivial_agent (asc ''A''), trivial_agent (asc ''B'')]) 2)
                    (messages_log fin)
       in history (agents fin ! 1)
            = history ([trivial_agent (asc ''A''), trivial_agent (asc ''B'')] ! 1)
              @ map (Pair (asc ''assistant'')) mine
        \<and> length mine = nat 2"
    by blast
  from 1 2 show ?thesis by (rule conjI)
qed

section \<open>Claim C9: what a turn may change\<close>

text \<open>
  C9. A call of \<open>act\<close> returns the agent with the same configuration and the same
  documents; it receives the shared context as a value and returns only the reply, the
  agent and the service state. One pass of the loop body for the agent at position \<open>i\<close>
  leaves every other agent of the list as it was, stores at position \<open>i\<close> exactly the
  agent that \<open>act\<close> returned (so the loop itself changes no history), and extends the
  shared context by the entry of the turn. Over a whole run the number of agents, their
  configurations and their documents do not change.
\<close>

theorem act_frame:
  "(config (fst (snd (act svc a ctx s))) = config a
      \<and> docs (fst (snd (act svc a ctx s))) = docs a)
   \<and> (\<forall>j. j \<noteq> i \<longrightarrow> agents (turn_step svc k i st) ! j = agents st ! j)
   \<and> (i < length (agents st) \<longrightarrow>
        agents (turn_step svc k i st) ! i
          = fst (snd (act svc (agents st ! i) (global_context st) (service_state st))))
   \<and> global_context (turn_step svc k i st)
        = global_context st
          @ turn_entry k (name (config (agents st ! i)))
              (fst (act svc (agents st ! i) (global_context st) (service_state st)))
   \<and> (let fin = generate svc scenario turns agents0 s0
       in length (agents fin) = length agents0
        \<and> map config (agents fin) = map config agents0
        \<and> map docs (agents fin) = map docs agents0)"
proof -
  have 1: "config (fst (snd (act svc a ctx s))) = config a
      \<and> docs (fst (snd (act svc a ctx s))) = docs a"
    by (simp add: act_snd)
  have 2: "\<forall>j. j \<noteq> i \<longrightarrow> agents (turn_step svc k i st) ! j = agents st ! j"
    by (simp add: turn_step_agents)
  have 3: "agents (turn_step svc k i st) ! i
          = fst (snd (act svc (agents st ! i) (global_context st) (service_state st)))"
    if "i < length (agents st)"
    using that by (simp add: turn_step_agents act_snd step_reply_def)
  have 4: "global_context (turn_step svc k i st)
        = global_context st
          @ turn_entry k (name (config (agents st ! i)))
              (fst (act svc (agents st ! i) (global_context st) (service_state st)))"
    by (simp add: turn_step_global_context entry_of_msg_def step_msg_def step_reply_def)
  have 5: "let fin = generate svc scenario turns agents0 s0
       in length (agents fin) = length agents0
        \<and> map config (agents fin) = map config agents0
        \<and> map docs (agents fin) = map docs agents0"
    by (simp add: generate_run_steps Let_def) (simp add: init_state_def)
  from 1 2 3 4 5 show ?thesis by blast
qed

theorem act_frame_witness:
  "agents (turn_step echo_stub 1 0 (init_state [] [trivial_agent (asc ''A''), trivial_agent (asc ''B'')] ())) ! 1 = agents (init_state [] [trivial_agent (asc ''A''), trivial_agent (asc ''B'')] ()) ! 1
   \<and> agents (turn_step echo_stub 1 0 (init_state [] [trivial_agent (asc ''A''), trivial_agent (asc ''B'')] ())) ! 0
       = fst (snd (act echo_stub (agents (init_state [] [trivial_agent (asc ''A''), trivial_agent (asc ''B'')] ()) ! 0) (global_context (init_state [] [trivial_agent (asc ''A''), trivial_agent (asc ''B'')] ())) (service_state (init_state [] [trivial_agent (asc ''A''), trivial_agent (asc ''B'')] ()))))
   \<and> (let fin = generate echo_stub [] 2 [trivial_agent (asc ''A''), trivial_agent (asc ''B'')] ()
       in length (agents fin) = length [trivial_agent (asc ''A''), trivial_agent (asc ''B'')]
        \<and> map config (agents fin) = map config [trivial_agent (asc ''A''), trivial_agent (asc ''B'')]
        \<and> map docs (agents fin) = map docs [trivial_agent (asc ''A''), trivial_agent (asc ''B'')])"
proof -
  note inst = act_frame [of echo_stub _ _ _ 0 1
      "init_state [] [trivial_agent (asc ''A''), trivial_agent (asc ''B'')] ()" "[]" 2
      "[trivial_agent (asc ''A''), trivial_agent (asc ''B'')]" "()"]
  have h: "0 < length (agents (init_state [] [trivial_agent (asc ''A''), trivial_agent (asc ''B'')] ()))"
    by (simp add: init_state_def)
  have n: "(1::nat) \<noteq> 0" by simp
  from inst n have 1: "agents (turn_step echo_stub 1 0 (init_state [] [trivial_agent (asc ''A''), trivial_agent (asc ''B'')] ())) ! 1 = agents (init_state [] [trivial_agent (asc ''A''), trivial_agent (asc ''B'')] ()) ! 1"
    by blast
  from inst h have 2: "agents (turn_step echo_stub 1 0 (init_state [] [trivial_agent (asc ''A''), trivial_agent (asc ''B'')] ())) ! 0
       = fst (snd (act echo_stub (agents (init_state [] [trivial_agent (asc ''A''), trivial_agent (asc ''B'')] ()) ! 0) (global_context (init_state [] [trivial_agent (asc ''A''), trivial_agent (asc ''B'')] ())) (service_state (init_state [] [trivial_agent (asc ''A''), trivial_agent (asc ''B'')] ()))))"
    by blast
  from inst have 3: "let fin = generate echo_stub [] 2 [trivial_agent (asc ''A''), trivial_agent (asc ''B'')] ()
       in length (agents fin) = length [trivial_agent (asc ''A''), trivial_agent (asc ''B'')]
        \<and> map config (agents fin) = map config [trivial_agent (asc ''A''), trivial_agent (asc ''B'')]
        \<and> map docs (agents fin) = map docs [trivial_agent (asc ''A''), trivial_agent (asc ''B'')]"
    by blast
  from 1 2 3 show ?thesis by blast
qed

section \<open>Claim C10: a turn count that is not positive\<close>

text \<open>
  C10. For a request whose turn count is 0 or negative and whose agent list has at least
  one entry with a non-blank name, the simulation does not fail: it emits no message
  record, and its only line is the done marker with a total of 0.
\<close>

theorem nonpositive_turns_done:
  assumes "req_turns data = Some turns" and "turns \<le> 0"
    and "req_agents data = Some agents_data"
    and "\<exists>a \<in> set agents_data. py_strip (dict_get a (asc ''name'') []) \<noteq> []"
  shows "\<exists>st. simulate_stream fs svc data s0 = Inr st \<and> emitted st = [Done 0]
           \<and> messages_log st = []"
proof -
  from assms(4) have "build_agents_from_request fs agents_data \<noteq> []"
    by (simp add: build_agents_eq_Nil)
  with assms(1-3) show ?thesis
    by (simp add: simulate_stream_def generate_def init_state_def rounds_loop_nonpos Let_def)
qed

theorem nonpositive_turns_done_witness:
  "(\<exists>a \<in> set [[asc ''name'' \<mapsto> asc ''A'']]. py_strip (dict_get a (asc ''name'') []) \<noteq> []) \<and>
   (\<exists>st. simulate_stream empty_fs echo_stub
       \<lparr>req_scenario = None, req_turns = Some (- 2),
        req_agents = Some [[asc ''name'' \<mapsto> asc ''A'']]\<rparr> ()
       = Inr st \<and> emitted st = [Done 0] \<and> messages_log st = [])"
proof -
  have h: "\<exists>a \<in> set [[asc ''name'' \<mapsto> asc ''A'']]. py_strip (dict_get a (asc ''name'') []) \<noteq> []"
    by (simp add: dict_get_def py_strip_def asc_def isspace_def)
  show ?thesis
    using h nonpositive_turns_done [of
        "\<lparr>req_scenario = None, req_turns = Some (- 2),
          req_agents = Some [[asc ''name'' \<mapsto> asc ''A'']]\<rparr>"
        "- 2" "[[asc ''name'' \<mapsto> asc ''A'']]" empty_fs echo_stub "()", OF _ _ _ h]
    by simp
qed

end
